theory Spec2Isabelle
  imports Main "HOL-Library.Sublist" "HOL-Library.Multiset"
begin

section \<open>The blog editor of blog.js: data model\<close>

text \<open>
  The development follows \<^verbatim>\<open>class BlogManager\<close> of
  \<^verbatim>\<open>src/XinEn/blogvideophoto/blog.js\<close> (the jQuery variant). The second variant,
  \<^verbatim>\<open>src/unnamed/part_000\<close>, has the same post store, edit session and draft loading;
  it differs in \<^verbatim>\<open>saveFormDraft\<close>, which is given separately below, in the delays
  of its timers, and in a second test of the excerpt in \<^verbatim>\<open>validateForm\<close> that the
  loop over the required fields has already made.

  JavaScript strings are modelled as \<^typ>\<open>string\<close>, a \<^verbatim>\<open>Date\<close> as the integer
  number of milliseconds it holds, and the fields \<^verbatim>\<open>this.posts\<close>,
  \<^verbatim>\<open>this.formDraft\<close>, \<^verbatim>\<open>this.currentEditIndex\<close> and
  \<^verbatim>\<open>this.selectedImageAttribution\<close> together with the part of the page the
  methods read and write (the form inputs, the chosen file, the error line, the preview
  image, the session storage key) as one record that every method takes and returns.
  A \<^verbatim>\<open>null\<close> or missing element is \<^const>\<open>None\<close>. Rendering, notifications, the word
  counter and the network calls do not act on any of these and are left out.
\<close>

type_synonym time = int

record attribution =
  photographer :: string
  photographerUrl :: string
  unsplashUrl :: string

text \<open>
  A post is the object built by \<^verbatim>\<open>createPostData\<close>; the keys
  \<^verbatim>\<open>imageAttribution\<close> and \<^verbatim>\<open>dateEdited\<close> are added later by
  \<^verbatim>\<open>createPost\<close> and \<^verbatim>\<open>updatePost\<close> and are absent (\<^const>\<open>None\<close>) until then.
\<close>

record post =
  author :: string
  category :: string
  title :: string
  image' :: "string option"
  excerpt :: string
  content :: string
  tags :: "string list"
  date :: time
  views :: nat
  dateEdited :: "time option"
  imageAttribution :: "attribution option"

text \<open>
  The object \<^verbatim>\<open>formData\<close> of \<^verbatim>\<open>saveFormDraft\<close>. Its key
  \<^verbatim>\<open>selectedImageAttribution\<close> is the field \<open>draftAttribution\<close> here, and the key
  \<^verbatim>\<open>previewImageSrc\<close> is present only when an image that is not a data URL is shown.
\<close>

record draft =
  authorName :: string
  postCategory :: string
  postTitle :: string
  postExcerpt :: string
  postTags :: string
  savedAt :: time
  draftAttribution :: "attribution option"
  previewImageSrc :: "string option"

record input =
  ivalue :: string
  ilabel :: "string option"

text \<open>
  The selected file of \<^verbatim>\<open>#postImage\<close>: its MIME type, its size in bytes and what a
  \<^verbatim>\<open>FileReader\<close> delivers for it (\<^const>\<open>None\<close> when reading fails).
\<close>

record image_file =
  ftype :: string
  fsize :: nat
  fdata :: "string option"

record state =
  posts :: "post list"
  formDraft :: "draft option"
  currentEditIndex :: "int option"
  selectedImageAttribution :: "attribution option"
  inputs :: "string \<rightharpoonup> input"
  postImage :: "image_file option"
  formError :: "string option"
  previewImg :: "string option"
  hasSessionStorage :: bool
  blogFormDraft :: "draft option"

text \<open>The state the constructor leaves, on a page with the given elements.\<close>

definition constructor :: "(string \<rightharpoonup> input) \<Rightarrow> string option \<Rightarrow> string option \<Rightarrow> bool
    \<Rightarrow> draft option \<Rightarrow> state" where
  "constructor ins err img st stored =
     \<lparr>posts = [], formDraft = None, currentEditIndex = None, selectedImageAttribution = None,
      inputs = ins, postImage = None, formError = err, previewImg = img,
      hasSessionStorage = st, blogFormDraft = stored\<rparr>"

section \<open>Strings and arrays of the host language\<close>

text \<open>
  \<^verbatim>\<open>String.prototype.trim\<close> removes white space and line terminators from both ends;
  within the one-byte characters these are the seven below.
\<close>

definition isSpace :: "char \<Rightarrow> bool" where
  "isSpace c = (c \<in> set [CHR 0x09, CHR 0x0A, CHR 0x0B, CHR 0x0C, CHR 0x0D, CHR 0x20, CHR 0xA0])"

definition trim :: "string \<Rightarrow> string" where
  "trim s = rev (dropWhile isSpace (rev (dropWhile isSpace s)))"

text \<open>A string is truthy when it is not empty; \<^verbatim>\<open>a || b\<close> on strings.\<close>

definition truthy :: "string \<Rightarrow> bool" where
  "truthy s = (s \<noteq> [])"

definition or_else :: "string \<Rightarrow> string \<Rightarrow> string" where
  "or_else a b = (if truthy a then a else b)"

fun includes' :: "string \<Rightarrow> string \<Rightarrow> bool" where
  "includes' [] sub = (sub = [])"
| "includes' (c # cs) sub = (prefix sub (c # cs) \<or> includes' cs sub)"

fun split :: "char \<Rightarrow> string \<Rightarrow> string list" where
  "split sep [] = [[]]"
| "split sep (c # cs) =
     (if c = sep then [] # split sep cs
      else (case split sep cs of [] \<Rightarrow> [[c]] | w # ws \<Rightarrow> (c # w) # ws))"

fun join :: "string \<Rightarrow> string list \<Rightarrow> string" where
  "join sep [] = []"
| "join sep [x] = x"
| "join sep (x # y # ys) = x @ sep @ join sep (y # ys)"

text \<open>\<^verbatim>\<open>this.posts[index]\<close>: the post, or \<^verbatim>\<open>undefined\<close> outside the array.\<close>

definition post_at :: "post list \<Rightarrow> int \<Rightarrow> post option" where
  "post_at ps i = (if 0 \<le> i \<and> nat i < length ps then Some (ps ! nat i) else None)"

text \<open>\<^verbatim>\<open>document.getElementById(id)?.value || ''\<close>\<close>

definition valueOf :: "(string \<rightharpoonup> input) \<Rightarrow> string \<Rightarrow> string" where
  "valueOf ins k = (case ins k of None \<Rightarrow> [] | Some i \<Rightarrow> ivalue i)"

text \<open>\<^verbatim>\<open>if (field) field.value = v\<close>\<close>

definition setValue :: "string \<Rightarrow> string \<Rightarrow> (string \<rightharpoonup> input) \<Rightarrow> (string \<rightharpoonup> input)" where
  "setValue k v ins = (case ins k of None \<Rightarrow> ins | Some i \<Rightarrow> ins(k \<mapsto> i\<lparr>ivalue := v\<rparr>))"

text \<open>
  \<^verbatim>\<open>new FormData(e.target)\<close>: the value of each named control of the form. The
  controls carry their id as name.
\<close>

definition formDataOf :: "state \<Rightarrow> (string \<rightharpoonup> string)" where
  "formDataOf s = (\<lambda>k. map_option ivalue (inputs s k))"

text \<open>\<^verbatim>\<open>if (formError) formError.textContent = msg\<close>\<close>

definition setFormError :: "string \<Rightarrow> state \<Rightarrow> state" where
  "setFormError msg s = s\<lparr>formError := map_option (\<lambda>_. msg) (formError s)\<rparr>"

text \<open>The three uses of \<^verbatim>\<open>sessionStorage\<close>, each guarded by its availability.\<close>

definition setItem :: "draft \<Rightarrow> state \<Rightarrow> state" where
  "setItem d s = (if hasSessionStorage s then s\<lparr>blogFormDraft := Some d\<rparr> else s)"

definition getItem :: "state \<Rightarrow> draft option" where
  "getItem s = (if hasSessionStorage s then blogFormDraft s else None)"

definition removeItem :: "state \<Rightarrow> state" where
  "removeItem s = (if hasSessionStorage s then s\<lparr>blogFormDraft := None\<rparr> else s)"

section \<open>Drafts\<close>

text \<open>
  \<^verbatim>\<open>hasUnsavedChanges\<close> returns the first non-empty operand of its
  \<^verbatim>\<open>||\<close> chain (or the empty string); callers test it for truthiness.
\<close>

definition hasUnsavedChanges :: "state \<Rightarrow> string" where
  "hasUnsavedChanges s =
     or_else (trim (valueOf (inputs s) ''authorName''))
       (or_else (valueOf (inputs s) ''postCategory'')
         (or_else (trim (valueOf (inputs s) ''postTitle''))
           (or_else (trim (valueOf (inputs s) ''postExcerpt''))
             (trim (valueOf (inputs s) ''postTags'')))))"

definition candidate :: "time \<Rightarrow> state \<Rightarrow> draft" where
  "candidate now s =
     \<lparr>authorName = valueOf (inputs s) ''authorName'',
      postCategory = valueOf (inputs s) ''postCategory'',
      postTitle = valueOf (inputs s) ''postTitle'',
      postExcerpt = valueOf (inputs s) ''postExcerpt'',
      postTags = valueOf (inputs s) ''postTags'',
      savedAt = now,
      draftAttribution = selectedImageAttribution s,
      previewImageSrc = None\<rparr>"

definition withPreview :: "state \<Rightarrow> draft \<Rightarrow> draft" where
  "withPreview s d =
     (case previewImg s of
        None \<Rightarrow> d
      | Some src \<Rightarrow> if truthy src \<and> \<not> includes' src ''data:'' then d\<lparr>previewImageSrc := Some src\<rparr> else d)"

definition storeDraft :: "draft \<Rightarrow> state \<Rightarrow> state" where
  "storeDraft d s = setItem d (s\<lparr>formDraft := Some d\<rparr>)"

text \<open>
  \<^verbatim>\<open>saveFormDraft\<close> of blog.js. The test
  \<^verbatim>\<open>JSON.stringify(formData) === JSON.stringify({...this.formDraft, savedAt: this.formDraft.savedAt})\<close>
  compares the serialisations of two objects with the same key order; the spread on the
  right puts \<^verbatim>\<open>savedAt\<close> back to the value it already has, so the right-hand side is
  the stored draft itself, and the two texts agree exactly when all keys agree, the time
  stamp and a stored \<^verbatim>\<open>previewImageSrc\<close> included.
\<close>

definition saveFormDraft :: "time \<Rightarrow> state \<Rightarrow> state" where
  "saveFormDraft now s =
     (if currentEditIndex s \<noteq> None then s
      else if \<not> truthy (hasUnsavedChanges s) then s
      else let formData = candidate now s in
        if formDraft s = Some formData then s
        else storeDraft (withPreview s formData) s)"

text \<open>\<^verbatim>\<open>saveFormDraft\<close> of the second variant (part\_000): no test before the write.\<close>

definition saveFormDraft_always :: "time \<Rightarrow> state \<Rightarrow> state" where
  "saveFormDraft_always now s =
     (if currentEditIndex s \<noteq> None then s
      else storeDraft (withPreview s (candidate now s)) s)"

definition clearFormDraft :: "state \<Rightarrow> state" where
  "clearFormDraft s = removeItem (s\<lparr>formDraft := None, selectedImageAttribution := None\<rparr>)"

definition showImagePreview :: "string \<Rightarrow> state \<Rightarrow> state" where
  "showImagePreview src s = s\<lparr>previewImg := map_option (\<lambda>_. src) (previewImg s)\<rparr>"

definition hideImagePreview :: "state \<Rightarrow> state" where
  "hideImagePreview s = s\<lparr>postImage := None\<rparr>"

definition draftKeys :: "string list" where
  "draftKeys = [''authorName'', ''postCategory'', ''postTitle'', ''postExcerpt'', ''postTags'']"

definition draftGet :: "draft \<Rightarrow> string \<Rightarrow> string" where
  "draftGet d k =
     (if k = ''authorName'' then authorName d
      else if k = ''postCategory'' then postCategory d
      else if k = ''postTitle'' then postTitle d
      else if k = ''postExcerpt'' then postExcerpt d
      else if k = ''postTags'' then postTags d
      else [])"

text \<open>\<^verbatim>\<open>if (field && formData[key]) field.value = formData[key]\<close>\<close>

definition restoreField :: "draft \<Rightarrow> (string \<rightharpoonup> input) \<Rightarrow> string \<Rightarrow> (string \<rightharpoonup> input)" where
  "restoreField d ins k = (if truthy (draftGet d k) then setValue k (draftGet d k) ins else ins)"

definition sevenDays :: int where
  "sevenDays = 7 * (1000 * 60 * 60 * 24)"

text \<open>
  \<^verbatim>\<open>loadFormDraft\<close>. The quotient \<^verbatim>\<open>(now - savedDate) / (1000 * 60 * 60 * 24)\<close>
  is greater than 7 exactly when the difference in milliseconds is greater than
  \<^const>\<open>sevenDays\<close>, which is how the test is written here.
\<close>

definition loadFormDraft :: "time \<Rightarrow> state \<Rightarrow> bool \<times> state" where
  "loadFormDraft now s =
     (let s1 = (case getItem s of None \<Rightarrow> s | Some saved \<Rightarrow> s\<lparr>formDraft := Some saved\<rparr>) in
      case formDraft s1 of
        None \<Rightarrow> (False, s1)
      | Some formData \<Rightarrow>
          if now - savedAt formData > sevenDays then (False, clearFormDraft s1)
          else
            let s2 = s1\<lparr>inputs := foldl (restoreField formData) (inputs s1) draftKeys\<rparr>;
                s3 = (case draftAttribution formData of
                        None \<Rightarrow> s2
                      | Some a \<Rightarrow> s2\<lparr>selectedImageAttribution := Some a\<rparr>);
                s4 = (case previewImageSrc formData of
                        None \<Rightarrow> s3
                      | Some src \<Rightarrow> if truthy src then showImagePreview src s3 else s3)
            in (True, s4))"

text \<open>The draft \<^verbatim>\<open>loadFormDraft\<close> finds: the one in session storage, else the one in memory.\<close>

definition storedDraft :: "state \<Rightarrow> draft option" where
  "storedDraft s = (case getItem s of None \<Rightarrow> formDraft s | Some saved \<Rightarrow> Some saved)"

definition day :: int where
  "day = 1000 * 60 * 60 * 24"

section \<open>The edit session\<close>

text \<open>
  Modelled from the spec: the page's HTML, which fixes the default value of each control,
  is not among the sources; \<^verbatim>\<open>blogForm.reset()\<close> is taken to empty every control and
  to drop the chosen file (``clears any stale form contents'').
\<close>

definition resetForm :: "state \<Rightarrow> state" where
  "resetForm s = s\<lparr>inputs := (\<lambda>k. map_option (\<lambda>i. i\<lparr>ivalue := []\<rparr>) (inputs s k)), postImage := None\<rparr>"

definition openCreateModal :: "time \<Rightarrow> state \<Rightarrow> state" where
  "openCreateModal now s =
     snd (loadFormDraft now (hideImagePreview (resetForm (s\<lparr>currentEditIndex := None\<rparr>))))"

definition openEditModal :: "int \<Rightarrow> state \<Rightarrow> state" where
  "openEditModal index s =
     (let s1 = s\<lparr>currentEditIndex := Some index\<rparr> in
      case post_at (posts s1) index of
        None \<Rightarrow> s1
      | Some p \<Rightarrow>
          let s2 = clearFormDraft s1;
              s3 = s2\<lparr>inputs :=
                     setValue ''postTags'' (join '', '' (tags p))
                       (setValue ''postExcerpt'' (excerpt p)
                         (setValue ''postTitle'' (title p)
                           (setValue ''postCategory'' (category p)
                             (setValue ''authorName'' (author p) (inputs s2)))))\<rparr>
          in (case image' p of
                None \<Rightarrow> hideImagePreview s3
              | Some src \<Rightarrow> if truthy src then showImagePreview src s3 else hideImagePreview s3))"

definition closeModals :: "state \<Rightarrow> state" where
  "closeModals s = s\<lparr>currentEditIndex := None\<rparr>"

section \<open>Validation and submission\<close>

definition requiredFields :: "string list" where
  "requiredFields = [''authorName'', ''postCategory'', ''postTitle'', ''postExcerpt'']"

text \<open>\<^verbatim>\<open>input.labels?.[0]?.textContent || fieldId\<close>\<close>

definition labelOf :: "string \<Rightarrow> input \<Rightarrow> string" where
  "labelOf fieldId i = (case ilabel i of None \<Rightarrow> fieldId | Some l \<Rightarrow> or_else l fieldId)"

text \<open>
  The loop of \<^verbatim>\<open>validateForm\<close> over the required fields: the message of the first
  field that fails, \<^const>\<open>None\<close> when the loop runs to its end.
\<close>

fun checkRequired :: "(string \<rightharpoonup> input) \<Rightarrow> string list \<Rightarrow> string option" where
  "checkRequired ins [] = None"
| "checkRequired ins (fieldId # rest) =
     (case ins fieldId of
        None \<Rightarrow> Some (''Field '' @ fieldId @ '' not found.'')
      | Some i \<Rightarrow>
          if \<not> truthy (trim (ivalue i)) then Some (labelOf fieldId i @ '' is required.'')
          else checkRequired ins rest)"

definition allowedTypes :: "string list" where
  "allowedTypes = [''image/png'', ''image/jpeg'', ''image/jpg'']"

definition validateImageFile :: "image_file \<Rightarrow> state \<Rightarrow> bool \<times> state" where
  "validateImageFile f s =
     (if ftype f \<notin> set allowedTypes then (False, setFormError ''Please upload PNG or JPG only.'' s)
      else if fsize f > 5 * 1024 * 1024 then (False, setFormError ''Image must be less than 5MB.'' s)
      else (True, s))"

definition validateForm :: "state \<Rightarrow> bool \<times> state" where
  "validateForm s =
     (let s0 = setFormError [] s in
      case checkRequired (inputs s0) requiredFields of
        Some msg \<Rightarrow> (False, setFormError msg s0)
      | None \<Rightarrow>
          (case currentEditIndex s0 of
             None \<Rightarrow>
               (case postImage s0 of
                  None \<Rightarrow> (False, setFormError ''Featured image is required.'' s0)
                | Some imageFile \<Rightarrow> validateImageFile imageFile s0)
           | Some _ \<Rightarrow>
               (case postImage s0 of
                  None \<Rightarrow> (True, s0)
                | Some imageFile \<Rightarrow> validateImageFile imageFile s0)))"

text \<open>\<^verbatim>\<open>formData.get(k)?.trim() || ''\<close>\<close>

definition trimmed :: "(string \<rightharpoonup> string) \<Rightarrow> string \<Rightarrow> string" where
  "trimmed formData k = (case formData k of None \<Rightarrow> [] | Some v \<Rightarrow> trim v)"

definition createPostData :: "(string \<rightharpoonup> string) \<Rightarrow> string option \<Rightarrow> time \<Rightarrow> post" where
  "createPostData formData img now =
     \<lparr>author = trimmed formData ''authorName'',
      category = (case formData ''postCategory'' of None \<Rightarrow> [] | Some v \<Rightarrow> v),
      title = trimmed formData ''postTitle'',
      image' = img,
      excerpt = trimmed formData ''postExcerpt'',
      content = or_else (trimmed formData ''postContent'') (trimmed formData ''postExcerpt''),
      tags = filter truthy (map trim
               (split CHR '','' (case formData ''postTags'' of None \<Rightarrow> [] | Some v \<Rightarrow> v))),
      date = now,
      views = 0,
      dateEdited = None,
      imageAttribution = None\<rparr>"

definition createPost :: "post \<Rightarrow> state \<Rightarrow> state" where
  "createPost postData s =
     (let postData1 = (case selectedImageAttribution s of
                         None \<Rightarrow> postData
                       | Some a \<Rightarrow> postData\<lparr>imageAttribution := Some a\<rparr>);
          s1 = s\<lparr>selectedImageAttribution := None\<rparr>
      in clearFormDraft (s1\<lparr>posts := postData1 # posts s1\<rparr>))"

text \<open>
  \<^verbatim>\<open>{...existingPost, ...postData, views: existingPost.views || 0, dateEdited: now}\<close>:
  every key of \<open>postData\<close> replaces that of the stored post, a key \<open>postData\<close> does not
  have keeps the stored value, then \<open>views\<close> and \<open>dateEdited\<close> are set.
\<close>

definition merge :: "post \<Rightarrow> post \<Rightarrow> time \<Rightarrow> post" where
  "merge existingPost postData now =
     postData\<lparr>views := views existingPost,
              dateEdited := Some now,
              imageAttribution := (case imageAttribution postData of
                                     None \<Rightarrow> imageAttribution existingPost
                                   | Some a \<Rightarrow> Some a)\<rparr>"

definition updatePost :: "int \<Rightarrow> post \<Rightarrow> time \<Rightarrow> state \<Rightarrow> state" where
  "updatePost index postData now s =
     (case post_at (posts s) index of
        None \<Rightarrow> s
      | Some existingPost \<Rightarrow> s\<lparr>posts := (posts s)[nat index := merge existingPost postData now]\<rparr>)"

text \<open>\<^verbatim>\<open>deletePost\<close>; the second argument is the answer to the \<^verbatim>\<open>confirm\<close> dialog.\<close>

definition deletePost :: "int \<Rightarrow> bool \<Rightarrow> state \<Rightarrow> state" where
  "deletePost index confirmed s =
     (case post_at (posts s) index of
        None \<Rightarrow> s
      | Some p \<Rightarrow>
          if confirmed then s\<lparr>posts := take (nat index) (posts s) @ drop (Suc (nat index)) (posts s)\<rparr>
          else s)"

text \<open>
  \<^verbatim>\<open>openPostDetail(element, 'user')\<close> for the article rendered with
  \<^verbatim>\<open>data-id = postId\<close>: the view count of the post is raised and the new count is
  written into the article's \<^verbatim>\<open>.view-count\<close> element, which is the value given back
  here beside the state (\<^const>\<open>None\<close> when there is no such post and nothing is written).
\<close>

definition openPostDetail :: "int \<Rightarrow> state \<Rightarrow> nat option \<times> state" where
  "openPostDetail postId s =
     (case post_at (posts s) postId of
        None \<Rightarrow> (None, s)
      | Some p \<Rightarrow>
          (Some (views p + 1), s\<lparr>posts := (posts s)[nat postId := p\<lparr>views := views p + 1\<rparr>]\<rparr>))"

text \<open>
  \<^verbatim>\<open>handleSubmit\<close>. The file is read asynchronously in the source; the model runs the
  \<^verbatim>\<open>onload\<close> or \<^verbatim>\<open>onerror\<close> callback at once, in the state validation left.
  \<open>now\<close> is the clock read by \<^verbatim>\<open>createPostData\<close>, \<open>now'\<close> the one read by
  \<^verbatim>\<open>updatePost\<close>.
\<close>

definition submitWithoutImage :: "time \<Rightarrow> time \<Rightarrow> state \<Rightarrow> state" where
  "submitWithoutImage now now' s =
     (case currentEditIndex s of
        Some index \<Rightarrow>
          let postData = createPostData (formDataOf s) None now;
              postData1 = (case post_at (posts s) index of
                             None \<Rightarrow> postData
                           | Some p \<Rightarrow>
                               (case image' p of
                                  None \<Rightarrow> postData
                                | Some src \<Rightarrow> if truthy src then postData\<lparr>image' := Some src\<rparr>
                                              else postData))
          in closeModals (updatePost index postData1 now' s)
      | None \<Rightarrow> setFormError ''Please select an image file.'' s)"

definition handleSubmit :: "time \<Rightarrow> time \<Rightarrow> state \<Rightarrow> state" where
  "handleSubmit now now' s =
     (case validateForm s of
        (False, s1) \<Rightarrow> s1
      | (True, s1) \<Rightarrow>
          (case postImage s1 of
             None \<Rightarrow> submitWithoutImage now now' s1
           | Some imageFile \<Rightarrow>
               if fsize imageFile > 0 then
                 (case fdata imageFile of
                    None \<Rightarrow> setFormError ''Error reading image file.'' s1
                  | Some result \<Rightarrow>
                      let postData = createPostData (formDataOf s1) (Some result) now
                      in closeModals
                           (case currentEditIndex s1 of
                              Some index \<Rightarrow> updatePost index postData now' s1
                            | None \<Rightarrow> createPost postData s1))
               else submitWithoutImage now now' s1))"

text \<open>
  The image \<^verbatim>\<open>handleSubmit\<close> puts into the snapshot when a post is edited and no file
  is chosen: that of the stored post, if it is truthy.
\<close>

definition retainedImage :: "post \<Rightarrow> string option" where
  "retainedImage p = (case image' p of None \<Rightarrow> None | Some src \<Rightarrow> if truthy src then Some src else None)"

text \<open>
  \<^verbatim>\<open>handleImageUpload\<close> for a file the user picks, \<^verbatim>\<open>removeImage\<close>, and
  \<^verbatim>\<open>clearFormAndDraft\<close> with the answer to its \<^verbatim>\<open>confirm\<close> dialog.
\<close>

definition handleImageUpload :: "image_file \<Rightarrow> state \<Rightarrow> state" where
  "handleImageUpload f s =
     (case validateImageFile f (s\<lparr>postImage := Some f\<rparr>) of
        (False, s1) \<Rightarrow> s1\<lparr>postImage := None\<rparr>
      | (True, s1) \<Rightarrow> (case fdata f of None \<Rightarrow> s1 | Some result \<Rightarrow> showImagePreview result s1))"

definition removeImage :: "state \<Rightarrow> state" where
  "removeImage s = (hideImagePreview s)\<lparr>selectedImageAttribution := None\<rparr>"

definition clearFormAndDraft :: "bool \<Rightarrow> state \<Rightarrow> state" where
  "clearFormAndDraft confirmed s =
     (if confirmed then (clearFormDraft (hideImagePreview (resetForm s)))\<lparr>selectedImageAttribution := None\<rparr>
      else s)"

section \<open>Runs of the editor\<close>

text \<open>
  What can happen to a \<^verbatim>\<open>BlogManager\<close>: the user changes a control, picks a file, a
  timer of \<^verbatim>\<open>setupFormAutoSave\<close> fires, or one of the handlers is called. The timer
  callbacks test \<^verbatim>\<open>this.currentEditIndex === null\<close> and call \<^verbatim>\<open>saveFormDraft\<close>,
  which makes the same test again.
\<close>

datatype event =
    OnInput string string
  | OnChooseFile image_file
  | OnAutosave time
  | OnOpenCreate time
  | OnOpenEdit int
  | OnClose
  | OnSubmit time time
  | OnDelete int bool
  | OnOpenDetail int
  | OnRemoveImage
  | OnClear bool

fun step :: "event \<Rightarrow> state \<Rightarrow> state" where
  "step (OnInput k v) s = s\<lparr>inputs := setValue k v (inputs s)\<rparr>"
| "step (OnChooseFile f) s = handleImageUpload f s"
| "step (OnAutosave now) s = (if currentEditIndex s = None then saveFormDraft now s else s)"
| "step (OnOpenCreate now) s = openCreateModal now s"
| "step (OnOpenEdit index) s = openEditModal index s"
| "step OnClose s = closeModals s"
| "step (OnSubmit now now') s = handleSubmit now now' s"
| "step (OnDelete index confirmed) s = deletePost index confirmed s"
| "step (OnOpenDetail postId) s = snd (openPostDetail postId s)"
| "step OnRemoveImage s = removeImage s"
| "step (OnClear confirmed) s = clearFormAndDraft confirmed s"

fun run :: "state \<Rightarrow> event list \<Rightarrow> state" where
  "run s [] = s"
| "run s (e # es) = run (step e s) es"

text \<open>The draft store is empty: neither the field nor the session storage key holds a draft.\<close>

definition noDraft :: "state \<Rightarrow> bool" where
  "noDraft s = (formDraft s = None \<and> getItem s = None)"

text \<open>A draft is held only in create mode.\<close>

definition draftOnlyInCreate :: "state \<Rightarrow> bool" where
  "draftOnlyInCreate s = (currentEditIndex s = None \<or> noDraft s)"

text \<open>Every \<^verbatim>\<open>openEditModal\<close> of the run is called with the index of a stored post.\<close>

fun editsAimed :: "state \<Rightarrow> event list \<Rightarrow> bool" where
  "editsAimed s [] = True"
| "editsAimed s (OnOpenEdit index # es) =
     (post_at (posts s) index \<noteq> None \<and> editsAimed (step (OnOpenEdit index) s) es)"
| "editsAimed s (e # es) = editsAimed (step e s) es"


text \<open>
  Neither source assigns \<^verbatim>\<open>this.selectedImageAttribution\<close> anything but
  \<^verbatim>\<open>null\<close> or the value a stored draft holds, and a draft holds what the field held
  when it was saved. A state is plain when nothing in it carries an image credit (the
  field, the draft in memory, the draft in session storage, the posts) and no stored
  image or read file is the empty string.
\<close>

definition uncredited :: "draft option \<Rightarrow> bool" where
  "uncredited d = (case d of None \<Rightarrow> True | Some formData \<Rightarrow> draftAttribution formData = None)"

definition plain :: "state \<Rightarrow> bool" where
  "plain s =
     (selectedImageAttribution s = None \<and> uncredited (formDraft s) \<and> uncredited (blogFormDraft s)
      \<and> list_all (\<lambda>p. imageAttribution p = None \<and> image' p \<noteq> Some []) (posts s)
      \<and> (case postImage s of None \<Rightarrow> True | Some f \<Rightarrow> fdata f \<noteq> Some []))"

section \<open>Operations on the post store\<close>

text \<open>
  The four operations on \<^verbatim>\<open>this.posts\<close>: publishing the snapshot of a form,
  updating a post with one, deleting a post, and opening a post's detail view. The
  snapshot is always the one \<^verbatim>\<open>createPostData\<close> builds.
\<close>

datatype store_op =
    Create "string \<rightharpoonup> string" "string option" time
  | Update int "string \<rightharpoonup> string" "string option" time time
  | Delete int bool
  | IncrementViews int

fun apply_op :: "store_op \<Rightarrow> state \<Rightarrow> state" where
  "apply_op (Create formData img now) s = createPost (createPostData formData img now) s"
| "apply_op (Update index formData img now now') s =
     updatePost index (createPostData formData img now) now' s"
| "apply_op (Delete index confirmed) s = deletePost index confirmed s"
| "apply_op (IncrementViews postId) s = snd (openPostDetail postId s)"

text \<open>
  Bookkeeping beside a run of operations, one entry per stored post: the position the
  post had in the store the run started from (\<^const>\<open>None\<close> for a post published during
  the run), and whether an update has reached the post during the run.
\<close>

type_synonym history = "(nat option \<times> bool) list"

fun track :: "store_op \<Rightarrow> state \<Rightarrow> history \<Rightarrow> history" where
  "track (Create formData img now) s h = (None, False) # h"
| "track (Update index formData img now now') s h =
     (if post_at (posts s) index = None then h else h[nat index := (fst (h ! nat index), True)])"
| "track (Delete index confirmed) s h =
     (if post_at (posts s) index = None \<or> \<not> confirmed then h
      else take (nat index) h @ drop (Suc (nat index)) h)"
| "track (IncrementViews postId) s h = h"

fun run_ops :: "store_op list \<Rightarrow> state \<times> history \<Rightarrow> state \<times> history" where
  "run_ops [] (s, h) = (s, h)"
| "run_ops (x # xs) (s, h) = run_ops xs (apply_op x s, track x s h)"

definition origin :: "post list \<Rightarrow> history" where
  "origin ps = map (\<lambda>j. (Some j, False)) [0..<length ps]"

text \<open>
  What the bookkeeping entry of a stored post says about it: a post that was in the
  starting store \<open>ps\<close> has at least the views it had there and, unless updated, the
  \<open>dateEdited\<close> it had there; a post published during the run has no \<open>dateEdited\<close>
  unless updated.
\<close>

fun faithful :: "post list \<Rightarrow> nat option \<times> bool \<Rightarrow> post \<Rightarrow> bool" where
  "faithful ps (Some j, updated) p =
     (j < length ps \<and> views (ps ! j) \<le> views p \<and> (updated \<or> dateEdited p = dateEdited (ps ! j)))"
| "faithful ps (None, updated) p = (updated \<or> dateEdited p = None)"

section \<open>Sorting the rendered articles\<close>

text \<open>
  \<^verbatim>\<open>handleSort\<close> sorts the articles of both containers. Of an article the comparator
  reads the text of its \<^verbatim>\<open>h3\<close> and \<^verbatim>\<open>new Date(dataset.date || 0)\<close>, a valid date
  for every article \<^verbatim>\<open>renderPosts\<close> writes; an article is these two values.
  \<^verbatim>\<open>String.prototype.localeCompare\<close> is the host's collation and is a parameter.
  \<^verbatim>\<open>Array.prototype.sort\<close> is a stable sort; for a comparator that is consistent its
  result is the one insertion from the right computes.
\<close>

record article =
  h3 :: string
  dataDate :: time

definition articleOf :: "post \<Rightarrow> article" where
  "articleOf p = \<lparr>h3 = title p, dataDate = date p\<rparr>"

fun insert_by :: "('a \<Rightarrow> 'a \<Rightarrow> int) \<Rightarrow> 'a \<Rightarrow> 'a list \<Rightarrow> 'a list" where
  "insert_by cmp x [] = [x]"
| "insert_by cmp x (y # ys) = (if cmp x y \<le> 0 then x # y # ys else y # insert_by cmp x ys)"

definition array_sort :: "('a \<Rightarrow> 'a \<Rightarrow> int) \<Rightarrow> 'a list \<Rightarrow> 'a list" where
  "array_sort cmp xs = foldr (insert_by cmp) xs []"

definition compareFn :: "(string \<Rightarrow> string \<Rightarrow> int) \<Rightarrow> string \<Rightarrow> article \<Rightarrow> article \<Rightarrow> int" where
  "compareFn localeCompare sortValue a b =
     (if sortValue = ''newest'' then dataDate b - dataDate a
      else if sortValue = ''oldest'' then dataDate a - dataDate b
      else if sortValue = ''title'' then localeCompare (h3 a) (h3 b)
      else 0)"

text \<open>The children of \<^verbatim>\<open>userPostsContainer\<close> and \<^verbatim>\<open>defaultPostsContainer\<close>, before and after.\<close>

definition handleSort :: "(string \<Rightarrow> string \<Rightarrow> int) \<Rightarrow> string \<Rightarrow> article list \<times> article list
    \<Rightarrow> article list \<times> article list" where
  "handleSort localeCompare sortValue containers =
     (let allPosts = fst containers @ snd containers in
      if allPosts = [] then containers
      else ([], array_sort (compareFn localeCompare sortValue) allPosts))"

text \<open>
  A consistent comparator: \<open>a\<close> sorts before \<open>b\<close> exactly when \<open>b\<close> sorts after \<open>a\<close>,
  and ``not after'' is transitive.
\<close>

definition consistent :: "('a \<Rightarrow> 'a \<Rightarrow> int) \<Rightarrow> bool" where
  "consistent cmp =
     ((\<forall>a b. (cmp a b < 0) = (0 < cmp b a))
      \<and> (\<forall>a b c. cmp a b \<le> 0 \<and> cmp b c \<le> 0 \<longrightarrow> cmp a c \<le> 0))"

text \<open>Two elements tie when neither sorts before the other.\<close>

definition tie :: "('a \<Rightarrow> 'a \<Rightarrow> int) \<Rightarrow> 'a \<Rightarrow> 'a \<Rightarrow> bool" where
  "tie cmp a b = (cmp a b = 0 \<and> cmp b a = 0)"

text \<open>
  The output of a stable sort: in order, a rearrangement of the input, and the elements
  that tie with any given one still in their original order.
\<close>

definition stable_sorted :: "('a \<Rightarrow> 'a \<Rightarrow> int) \<Rightarrow> 'a list \<Rightarrow> 'a list \<Rightarrow> bool" where
  "stable_sorted cmp xs ys =
     (sorted_wrt (\<lambda>a b. cmp a b \<le> 0) ys \<and> mset ys = mset xs
      \<and> (\<forall>t. filter (tie cmp t) ys = filter (tie cmp t) xs))"

text \<open>A comparison by character codes, one collation a host may use.\<close>

fun codeCompare :: "string \<Rightarrow> string \<Rightarrow> int" where
  "codeCompare [] [] = 0"
| "codeCompare [] (y # ys) = - 1"
| "codeCompare (x # xs) [] = 1"
| "codeCompare (x # xs) (y # ys) =
     (if (of_char x :: nat) < of_char y then - 1
      else if (of_char y :: nat) < of_char x then 1
      else codeCompare xs ys)"

section \<open>Statements of the specification, in its own words\<close>

text \<open>
  ``true iff any tracked field is non-empty after trimming whitespace'', the tracked
  fields being those of \<^const>\<open>draftKeys\<close>.
\<close>

definition nonEmptyAfterTrim :: "state \<Rightarrow> bool" where
  "nonEmptyAfterTrim s = list_ex (\<lambda>k. truthy (trim (valueOf (inputs s) k))) draftKeys"


section \<open>Example pages\<close>

definition blankInput :: "string \<Rightarrow> input" where
  "blankInput l = \<lparr>ivalue = [], ilabel = Some l\<rparr>"

definition pageInputs :: "string \<rightharpoonup> input" where
  "pageInputs =
     [''authorName'' \<mapsto> blankInput ''Author Name'',
      ''postCategory'' \<mapsto> blankInput ''Category'',
      ''postTitle'' \<mapsto> blankInput ''Post Title'',
      ''postExcerpt'' \<mapsto> blankInput ''Post Content'',
      ''postTags'' \<mapsto> blankInput ''Tags'']"

definition freshPage :: state where
  "freshPage = constructor pageInputs (Some []) (Some []) True None"

definition pngUrl :: string where
  "pngUrl = ''data:image/png;base64,iVBORw0KGgo=''"

definition png1KB :: image_file where
  "png1KB = \<lparr>ftype = ''image/png'', fsize = 1024, fdata = Some pngUrl\<rparr>"

definition fillForm :: "event list" where
  "fillForm =
     [OnInput ''authorName'' ''A'', OnInput ''postCategory'' ''food'',
      OnInput ''postTitle'' ''T'', OnInput ''postExcerpt'' ''E'']"

definition blankCategory :: state where
  "blankCategory = step (OnInput ''postCategory'' '' '') freshPage"

definition typedTitle :: state where
  "typedTitle = step (OnInput ''postTitle'' '' T '') freshPage"

definition typedAuthor :: state where
  "typedAuthor = step (OnInput ''authorName'' ''A'') freshPage"

definition authorOnly :: state where
  "authorOnly = step (OnChooseFile png1KB) (step (OnInput ''authorName'' ''Ann'') freshPage)"

definition filledPage :: state where
  "filledPage = run freshPage (fillForm @ [OnChooseFile png1KB])"

definition typedTwo :: state where
  "typedTwo = run freshPage [OnInput ''authorName'' ''A'', OnInput ''postTitle'' ''T'']"

definition draftedPage :: state where
  "draftedPage = step (OnAutosave 1000) typedTwo"

definition credit :: attribution where
  "credit = \<lparr>photographer = ''Ann'', photographerUrl = ''https://unsplash.com/@ann'',
             unsplashUrl = ''https://unsplash.com/photos/1''\<rparr>"

text \<open>A page on which a post with an image credit has been published and viewed twice.\<close>

definition publishedPost :: post where
  "publishedPost =
     \<lparr>author = ''A'', category = ''food'', title = ''T'',
      image' = Some pngUrl, excerpt = ''E'', content = ''E'',
      tags = [], date = 5, views = 2, dateEdited = None, imageAttribution = Some credit\<rparr>"

definition creditedPage :: state where
  "creditedPage =
     run (filledPage\<lparr>selectedImageAttribution := Some credit\<rparr>)
       [OnSubmit 5 6, OnOpenDetail 0, OnOpenDetail 0]"




text \<open>
  With a draft saved and the editor closed, \<^verbatim>\<open>openEditModal\<close> is called with an
  index the empty store does not have (the Edit button of an article that is shown but
  no longer stored).
\<close>

definition strayEdit :: state where
  "strayEdit = run draftedPage [OnClose, OnOpenEdit 0]"

text \<open>
  A run on the post store that holds one post with two views: publish a second post,
  view the first (now at index 1), update it, delete the second.
\<close>

definition formA :: "string \<rightharpoonup> string" where
  "formA = [''authorName'' \<mapsto> ''A'', ''postCategory'' \<mapsto> ''food'', ''postTitle'' \<mapsto> ''T'',
            ''postExcerpt'' \<mapsto> ''E'', ''postTags'' \<mapsto> ''x, y'']"

definition exampleOps :: "store_op list" where
  "exampleOps =
     [Create formA (Some pngUrl) 6, IncrementViews 1, Update 1 formA None 7 8, Delete 0 True]"

section \<open>Facts about the host functions\<close>

lemma setFormError_twice:
  "setFormError msg (setFormError m0 s) = s\<lparr>formError := map_option (\<lambda>_. msg) (formError s)\<rparr>"
  by (simp add: setFormError_def option.map_comp comp_def)

lemma inputs_setFormError [simp]: "inputs (setFormError m s) = inputs s"
  by (simp add: setFormError_def)

lemma trim_Nil [simp]: "trim [] = []"
  by (simp add: trim_def)

section \<open>Unsaved changes\<close>

text \<open>
  Claim C8, as stated: \<^verbatim>\<open>hasUnsavedChanges\<close> is true exactly when some tracked field is
  non-empty after trimming. It is not: the category is used as it stands, so a category
  of one space makes the result truthy although every field is empty after trimming.
\<close>

theorem hasUnsavedChanges_counterexample:
  "truthy (hasUnsavedChanges blankCategory) \<and> \<not> nonEmptyAfterTrim blankCategory"
  by (simp add: blankCategory_def freshPage_def constructor_def pageInputs_def blankInput_def
      hasUnsavedChanges_def nonEmptyAfterTrim_def draftKeys_def valueOf_def setValue_def
      or_else_def truthy_def trim_def isSpace_def)

text \<open>
  Claim C8, amended: \<^verbatim>\<open>hasUnsavedChanges\<close> is true exactly when the author, the
  title, the excerpt or the tags are non-empty after trimming, or the category is
  non-empty as it stands.
\<close>

theorem hasUnsavedChanges_iff:
  "truthy (hasUnsavedChanges s) =
     (truthy (trim (valueOf (inputs s) ''authorName''))
      \<or> truthy (valueOf (inputs s) ''postCategory'')
      \<or> truthy (trim (valueOf (inputs s) ''postTitle''))
      \<or> truthy (trim (valueOf (inputs s) ''postExcerpt''))
      \<or> truthy (trim (valueOf (inputs s) ''postTags'')))"
  by (simp add: hasUnsavedChanges_def or_else_def)

theorem hasUnsavedChanges_iff_witness:
  "truthy (hasUnsavedChanges typedTitle) \<and> trim (valueOf (inputs typedTitle) ''postTitle'') = ''T''"
proof -
  have t: "trim (valueOf (inputs typedTitle) ''postTitle'') = ''T''"
    by (simp add: typedTitle_def freshPage_def constructor_def pageInputs_def blankInput_def
        valueOf_def setValue_def trim_def isSpace_def)
  then have "truthy (trim (valueOf (inputs typedTitle) ''postTitle''))"
    by (simp add: truthy_def)
  then show ?thesis
    using t hasUnsavedChanges_iff [of typedTitle] by simp
qed

text \<open>
  Where the category holds no value made of white space only, as with the options of a
  select list, the amended statement and the stated one agree.
\<close>

lemma hasUnsavedChanges_trimmed_category:
  assumes "truthy (valueOf (inputs s) ''postCategory'') = truthy (trim (valueOf (inputs s) ''postCategory''))"
  shows "truthy (hasUnsavedChanges s) = nonEmptyAfterTrim s"
  using assms by (simp add: hasUnsavedChanges_def or_else_def nonEmptyAfterTrim_def draftKeys_def)

section \<open>Saving a draft\<close>

lemma saveFormDraft_frame:
  "inputs (saveFormDraft t s) = inputs s \<and> currentEditIndex (saveFormDraft t s) = currentEditIndex s
   \<and> selectedImageAttribution (saveFormDraft t s) = selectedImageAttribution s
   \<and> previewImg (saveFormDraft t s) = previewImg s \<and> posts (saveFormDraft t s) = posts s"
  by (simp add: saveFormDraft_def storeDraft_def setItem_def Let_def)

lemma savedAt_withPreview [simp]: "savedAt (withPreview s d) = savedAt d"
  by (simp add: withPreview_def split: option.splits)

lemma saveFormDraft_savedAt:
  assumes "currentEditIndex s = None" and "truthy (hasUnsavedChanges s)"
  shows "map_option savedAt (formDraft (saveFormDraft t s)) = Some t"
  using assms
  by (auto simp: saveFormDraft_def storeDraft_def setItem_def Let_def candidate_def)

lemma hasUnsavedChanges_saveFormDraft:
  "hasUnsavedChanges (saveFormDraft t s) = hasUnsavedChanges s"
  by (simp add: hasUnsavedChanges_def saveFormDraft_frame)

text \<open>
  Claim C3 says that of two autosave fires with the same form content the second skips
  the write, so that \<open>savedAt\<close> is written once. In blog.js the comparison that guards
  the write takes the stored time stamp into account, so a second fire at another time
  never finds the candidate equal: in create mode, with something in the form, the draft
  carries the time of the first fire after the first fire and the time of the second
  after the second, the form being the same at both.
\<close>

theorem second_fire_rewrites_savedAt:
  assumes "currentEditIndex s = None" and "truthy (hasUnsavedChanges s)" and "t1 \<noteq> t2"
  shows "inputs (saveFormDraft t1 s) = inputs s
       \<and> map_option savedAt (formDraft (saveFormDraft t1 s)) = Some t1
       \<and> map_option savedAt (formDraft (saveFormDraft t2 (saveFormDraft t1 s))) = Some t2
       \<and> formDraft (saveFormDraft t2 (saveFormDraft t1 s)) \<noteq> formDraft (saveFormDraft t1 s)"
proof -
  let ?s1 = "saveFormDraft t1 s"
  have first: "map_option savedAt (formDraft ?s1) = Some t1"
    using assms(1,2) by (rule saveFormDraft_savedAt)
  have "currentEditIndex ?s1 = None"
    using assms(1) by (simp add: saveFormDraft_frame)
  moreover have "truthy (hasUnsavedChanges ?s1)"
    using assms(2) by (simp add: hasUnsavedChanges_saveFormDraft)
  ultimately have second: "map_option savedAt (formDraft (saveFormDraft t2 ?s1)) = Some t2"
    by (rule saveFormDraft_savedAt)
  have "formDraft (saveFormDraft t2 ?s1) \<noteq> formDraft ?s1"
    using first second assms(3) by auto
  then show ?thesis
    using first second by (simp add: saveFormDraft_frame)
qed

theorem second_fire_rewrites_savedAt_witness:
  "map_option savedAt (formDraft (saveFormDraft 1000 typedAuthor)) = Some 1000
   \<and> map_option savedAt (formDraft (saveFormDraft 3000 (saveFormDraft 1000 typedAuthor))) = Some 3000"
proof -
  have a: "currentEditIndex typedAuthor = None"
    by (simp add: typedAuthor_def freshPage_def constructor_def)
  have "trim (valueOf (inputs typedAuthor) ''authorName'') = ''A''"
    by (simp add: typedAuthor_def freshPage_def constructor_def pageInputs_def blankInput_def
        valueOf_def setValue_def trim_def isSpace_def)
  then have b: "truthy (hasUnsavedChanges typedAuthor)"
    by (simp add: hasUnsavedChanges_def or_else_def truthy_def)
  have c: "(1000::int) \<noteq> 3000" by simp
  show ?thesis
    using second_fire_rewrites_savedAt [OF a b c] by simp
qed

text \<open>
  The test does skip a write in one case only: a fire at the very time stamp the stored
  draft carries, with the same content and no preview image stored.
\<close>

lemma saveFormDraft_same_instant:
  assumes "formDraft s = Some (candidate t s)"
  shows "saveFormDraft t s = s"
  using assms by (simp add: saveFormDraft_def Let_def)

text \<open>The second variant writes on every fire in create mode.\<close>

lemma saveFormDraft_always_writes:
  assumes "currentEditIndex s = None"
  shows "formDraft (saveFormDraft_always t s) = Some (withPreview s (candidate t s))"
  using assms by (simp add: saveFormDraft_always_def storeDraft_def setItem_def)

section \<open>Validation on submit\<close>

lemma checkRequired_append:
  assumes "\<forall>k \<in> set pre. \<exists>i. ins k = Some i \<and> truthy (trim (ivalue i))"
  shows "checkRequired ins (pre @ rest) = checkRequired ins rest"
  using assms by (induction pre) auto

lemma checkRequired_first_blank:
  assumes "n < length fs"
    and "\<forall>m<n. \<exists>j. ins (fs ! m) = Some j \<and> truthy (trim (ivalue j))"
    and "ins (fs ! n) = Some i" and "\<not> truthy (trim (ivalue i))"
  shows "checkRequired ins fs = Some (labelOf (fs ! n) i @ '' is required.'')"
proof -
  have fs: "fs = take n fs @ (fs ! n) # drop (Suc n) fs"
    using assms(1) by (simp add: id_take_nth_drop)
  have "\<forall>k \<in> set (take n fs). \<exists>i. ins k = Some i \<and> truthy (trim (ivalue i))"
    using assms(1,2) by (auto simp: in_set_conv_nth)
  then have "checkRequired ins fs = checkRequired ins ((fs ! n) # drop (Suc n) fs)"
    using checkRequired_append [of "take n fs" ins] fs by metis
  then show ?thesis using assms(3,4) by simp
qed

lemma checkRequired_first_missing:
  assumes "n < length fs"
    and "\<forall>m<n. \<exists>j. ins (fs ! m) = Some j \<and> truthy (trim (ivalue j))"
    and "ins (fs ! n) = None"
  shows "checkRequired ins fs = Some (''Field '' @ fs ! n @ '' not found.'')"
proof -
  have fs: "fs = take n fs @ (fs ! n) # drop (Suc n) fs"
    using assms(1) by (simp add: id_take_nth_drop)
  have "\<forall>k \<in> set (take n fs). \<exists>i. ins k = Some i \<and> truthy (trim (ivalue i))"
    using assms(1,2) by (auto simp: in_set_conv_nth)
  then have "checkRequired ins fs = checkRequired ins ((fs ! n) # drop (Suc n) fs)"
    using checkRequired_append [of "take n fs" ins] fs by metis
  then show ?thesis using assms(3) by simp
qed

lemma handleSubmit_rejected:
  assumes "checkRequired (inputs s) requiredFields = Some msg"
  shows "handleSubmit now now' s = s\<lparr>formError := map_option (\<lambda>_. msg) (formError s)\<rparr>"
  using assms by (simp add: handleSubmit_def validateForm_def Let_def setFormError_twice)

lemma validateForm_failed_frame:
  assumes "validateForm s = (False, s1)"
  shows "posts s1 = posts s \<and> formDraft s1 = formDraft s \<and> blogFormDraft s1 = blogFormDraft s
     \<and> currentEditIndex s1 = currentEditIndex s \<and> hasSessionStorage s1 = hasSessionStorage s"
  using assms
  by (auto simp: validateForm_def validateImageFile_def setFormError_def Let_def
      split: option.splits if_splits)

lemma handleSubmit_invalid:
  assumes "\<not> fst (validateForm s)"
  shows "handleSubmit now now' s = snd (validateForm s) \<and> posts (handleSubmit now now' s) = posts s"
proof -
  obtain s1 where v: "validateForm s = (False, s1)"
    using assms by (cases "validateForm s") auto
  then show ?thesis
    using validateForm_failed_frame [OF v] by (simp add: handleSubmit_def)
qed

text \<open>
  Claim C1: on submit the required fields are checked in the order author, category,
  title, excerpt, before any look at the image. If the \<open>n\<close>-th of them is the first
  that is blank (the ones before it are present and not blank), the submit ends with the
  error line reading ``\<open>label\<close> is required.'' for that field and with nothing else
  changed, whatever file is chosen; in particular the post store is as before. And
  whenever validation fails, for any reason, the post store is as before.
\<close>

theorem submit_stops_at_first_blank_field:
  assumes "n < length requiredFields"
    and "\<forall>m<n. \<exists>j. inputs s (requiredFields ! m) = Some j \<and> truthy (trim (ivalue j))"
    and "inputs s (requiredFields ! n) = Some i" and "\<not> truthy (trim (ivalue i))"
  shows "requiredFields = [''authorName'', ''postCategory'', ''postTitle'', ''postExcerpt'']
       \<and> handleSubmit now now' s =
           s\<lparr>formError := map_option (\<lambda>_. labelOf (requiredFields ! n) i @ '' is required.'') (formError s)\<rparr>
       \<and> posts (handleSubmit now now' s) = posts s
       \<and> (\<forall>s'. \<not> fst (validateForm s') \<longrightarrow> posts (handleSubmit now now' s') = posts s')"
proof -
  have "checkRequired (inputs s) requiredFields = Some (labelOf (requiredFields ! n) i @ '' is required.'')"
    using assms by (rule checkRequired_first_blank)
  then have stop: "handleSubmit now now' s =
      s\<lparr>formError := map_option (\<lambda>_. labelOf (requiredFields ! n) i @ '' is required.'') (formError s)\<rparr>"
    by (rule handleSubmit_rejected)
  have order: "requiredFields = [''authorName'', ''postCategory'', ''postTitle'', ''postExcerpt'']"
    by (simp add: requiredFields_def)
  have unchanged: "posts (handleSubmit now now' s) = posts s"
    by (simp add: stop)
  have always: "\<forall>s'. \<not> fst (validateForm s') \<longrightarrow> posts (handleSubmit now now' s') = posts s'"
    using handleSubmit_invalid by blast
  show ?thesis
    using order stop unchanged always by blast
qed

theorem submit_stops_at_first_blank_field_witness:
  "postImage authorOnly = Some png1KB
   \<and> handleSubmit 5 6 authorOnly = authorOnly\<lparr>formError := Some ''Category is required.''\<rparr>
   \<and> posts (handleSubmit 5 6 authorOnly) = []"
proof -
  have ins: "inputs authorOnly = pageInputs(''authorName'' \<mapsto> \<lparr>ivalue = ''Ann'', ilabel = Some ''Author Name''\<rparr>)"
    by (simp add: authorOnly_def freshPage_def constructor_def handleImageUpload_def
        validateImageFile_def allowedTypes_def png1KB_def showImagePreview_def setValue_def
        pageInputs_def blankInput_def)
  have rest: "postImage authorOnly = Some png1KB \<and> formError authorOnly = Some [] \<and> posts authorOnly = []"
    by (simp add: authorOnly_def freshPage_def constructor_def handleImageUpload_def
        validateImageFile_def allowedTypes_def png1KB_def showImagePreview_def)
  have n: "(1::nat) < length requiredFields"
    by (simp add: requiredFields_def)
  have before: "\<forall>m<(1::nat). \<exists>j. inputs authorOnly (requiredFields ! m) = Some j \<and> truthy (trim (ivalue j))"
    by (simp add: ins requiredFields_def truthy_def trim_def isSpace_def)
  have this_one: "inputs authorOnly (requiredFields ! 1) = Some (blankInput ''Category'')"
    by (simp add: ins requiredFields_def pageInputs_def)
  have blank: "\<not> truthy (trim (ivalue (blankInput ''Category'')))"
    by (simp add: blankInput_def truthy_def)
  have "labelOf (requiredFields ! 1) (blankInput ''Category'') @ '' is required.'' = ''Category is required.''"
    by (simp add: labelOf_def blankInput_def or_else_def truthy_def)
  then show ?thesis
    using submit_stops_at_first_blank_field [OF n before this_one blank, of 5 6] rest by simp
qed

section \<open>Indices outside the post store\<close>

lemma openPostDetail_bumps:
  assumes "post_at (posts s) i = Some p"
  shows "fst (openPostDetail i s) = Some (views p + 1)
       \<and> post_at (posts (snd (openPostDetail i s))) i = Some (p\<lparr>views := views p + 1\<rparr>)"
  using assms by (auto simp: openPostDetail_def post_at_def split: if_splits)

text \<open>
  Claim C5 says that \<^verbatim>\<open>openEditModal\<close>, \<^verbatim>\<open>updatePost\<close> and \<^verbatim>\<open>deletePost\<close> with
  an index that is no position of the post store change nothing. For \<^verbatim>\<open>updatePost\<close>,
  \<^verbatim>\<open>deletePost\<close> (and \<^verbatim>\<open>openPostDetail\<close>) that is so. \<^verbatim>\<open>openEditModal\<close> assigns
  \<^verbatim>\<open>this.currentEditIndex = index\<close> before it looks the post up and returns: it changes
  nothing else, the draft store included, but it leaves the session in edit mode at the
  index it was given.
\<close>

theorem index_outside_store:
  assumes "post_at (posts s) i = None"
  shows "openEditModal i s = s\<lparr>currentEditIndex := Some i\<rparr>
       \<and> updatePost i postData now s = s
       \<and> deletePost i confirmed s = s
       \<and> openPostDetail i s = (None, s)"
  using assms by (simp add: openEditModal_def updatePost_def deletePost_def openPostDetail_def Let_def)

theorem index_outside_store_witness:
  "currentEditIndex typedAuthor = None
   \<and> currentEditIndex (openEditModal 0 typedAuthor) = Some 0
   \<and> formDraft (saveFormDraft 1000 typedAuthor) \<noteq> None
   \<and> formDraft (saveFormDraft 1000 (openEditModal 0 typedAuthor)) = None"
proof -
  have p: "posts typedAuthor = []" and c: "currentEditIndex typedAuthor = None"
    and d: "formDraft typedAuthor = None"
    by (simp_all add: typedAuthor_def freshPage_def constructor_def)
  have a: "post_at (posts typedAuthor) 0 = None"
    by (simp add: p post_at_def)
  have "trim (valueOf (inputs typedAuthor) ''authorName'') = ''A''"
    by (simp add: typedAuthor_def freshPage_def constructor_def pageInputs_def blankInput_def
        valueOf_def setValue_def trim_def isSpace_def)
  then have u: "truthy (hasUnsavedChanges typedAuthor)"
    by (simp add: hasUnsavedChanges_def or_else_def truthy_def)
  have saved: "formDraft (saveFormDraft 1000 typedAuthor) \<noteq> None"
    using saveFormDraft_savedAt [OF c u, of 1000] by auto
  have e: "openEditModal 0 typedAuthor = typedAuthor\<lparr>currentEditIndex := Some 0\<rparr>"
    using index_outside_store [OF a] by simp
  show ?thesis
    using c d saved by (simp add: e saveFormDraft_def)
qed

section \<open>Publishing and viewing\<close>

lemma validateForm_accepts:
  assumes "currentEditIndex s = None"
    and "checkRequired (inputs s) requiredFields = None"
    and "postImage s = Some f" and "ftype f \<in> set allowedTypes" and "fsize f \<le> 5 * 1024 * 1024"
  shows "validateForm s = (True, setFormError [] s)"
  using assms by (simp add: validateForm_def validateImageFile_def Let_def setFormError_def)

lemma createPost_posts:
  "posts (createPost postData s) =
     (case selectedImageAttribution s of None \<Rightarrow> postData | Some a \<Rightarrow> postData\<lparr>imageAttribution := Some a\<rparr>) # posts s"
  by (simp add: createPost_def clearFormDraft_def removeItem_def Let_def)

lemma handleSubmit_publishes:
  assumes "currentEditIndex s = None"
    and "checkRequired (inputs s) requiredFields = None"
    and "postImage s = Some f" and "ftype f \<in> set allowedTypes" and "fsize f \<le> 5 * 1024 * 1024"
    and "0 < fsize f" and "fdata f = Some src"
  shows "handleSubmit now now' s = closeModals (createPost (createPostData (formDataOf s) (Some src) now) (setFormError [] s))"
  using assms validateForm_accepts [OF assms(1-5)]
  by (simp add: handleSubmit_def Let_def setFormError_def formDataOf_def)

text \<open>
  Claim C7: a submit in create mode with the required fields filled and an accepted,
  readable image puts one new post in front of the store (so one post at index 0 when
  the store was empty), with \<open>views = 0\<close>; opening its detail view twice shows 1 and
  then 2 as the view count and leaves \<open>views = 2\<close> in the store.
\<close>

theorem publish_then_view_twice:
  assumes "currentEditIndex s = None"
    and "checkRequired (inputs s) requiredFields = None"
    and "postImage s = Some f" and "ftype f \<in> set allowedTypes" and "fsize f \<le> 5 * 1024 * 1024"
    and "0 < fsize f" and "fdata f = Some src"
    and "p = (createPostData (formDataOf s) (Some src) now)\<lparr>imageAttribution := selectedImageAttribution s\<rparr>"
    and "s1 = handleSubmit now now' s"
    and "s2 = snd (openPostDetail 0 s1)"
    and "s3 = snd (openPostDetail 0 s2)"
  shows "posts s1 = p # posts s \<and> views p = 0
       \<and> fst (openPostDetail 0 s1) = Some 1 \<and> posts s2 = p\<lparr>views := 1\<rparr> # posts s
       \<and> fst (openPostDetail 0 s2) = Some 2 \<and> posts s3 = p\<lparr>views := 2\<rparr> # posts s"
proof -
  have v: "views p = 0"
    by (simp add: assms(8) createPostData_def)
  have "(case selectedImageAttribution s of
           None \<Rightarrow> createPostData (formDataOf s) (Some src) now
         | Some a \<Rightarrow> (createPostData (formDataOf s) (Some src) now)\<lparr>imageAttribution := Some a\<rparr>) = p"
    by (simp add: assms(8) createPostData_def split: option.splits)
  then have s1: "posts s1 = p # posts s"
    using handleSubmit_publishes [OF assms(1-7), of now now']
    by (simp add: assms(9) closeModals_def createPost_posts setFormError_def)
  have d1: "openPostDetail 0 s1 = (Some 1, s1\<lparr>posts := p\<lparr>views := 1\<rparr> # posts s\<rparr>)"
    by (simp add: openPostDetail_def post_at_def s1 v)
  then have s2: "posts s2 = p\<lparr>views := 1\<rparr> # posts s"
    by (simp add: assms(10))
  have d2: "openPostDetail 0 s2 = (Some 2, s2\<lparr>posts := p\<lparr>views := 2\<rparr> # posts s\<rparr>)"
    by (simp add: openPostDetail_def post_at_def s2)
  then have s3: "posts s3 = p\<lparr>views := 2\<rparr> # posts s"
    by (simp add: assms(11))
  show ?thesis
    using s1 v d1 s2 d2 s3 by simp
qed

lemma inputs_filledPage:
  "inputs filledPage =
     pageInputs(''authorName'' \<mapsto> \<lparr>ivalue = ''A'', ilabel = Some ''Author Name''\<rparr>,
                ''postCategory'' \<mapsto> \<lparr>ivalue = ''food'', ilabel = Some ''Category''\<rparr>,
                ''postTitle'' \<mapsto> \<lparr>ivalue = ''T'', ilabel = Some ''Post Title''\<rparr>,
                ''postExcerpt'' \<mapsto> \<lparr>ivalue = ''E'', ilabel = Some ''Post Content''\<rparr>)"
  by (simp add: filledPage_def fillForm_def freshPage_def constructor_def handleImageUpload_def
      validateImageFile_def allowedTypes_def png1KB_def showImagePreview_def setValue_def
      pageInputs_def blankInput_def)

lemma rest_filledPage:
  "posts filledPage = [] \<and> currentEditIndex filledPage = None \<and> postImage filledPage = Some png1KB
   \<and> selectedImageAttribution filledPage = None"
  by (simp add: filledPage_def fillForm_def freshPage_def constructor_def handleImageUpload_def
      validateImageFile_def allowedTypes_def png1KB_def showImagePreview_def)

theorem publish_then_view_twice_witness:
  "posts filledPage = []
   \<and> map (\<lambda>p. (author p, category p, title p, excerpt p, views p)) (posts (handleSubmit 5 6 filledPage))
       = [(''A'', ''food'', ''T'', ''E'', 0)]
   \<and> map views (posts (snd (openPostDetail 0 (snd (openPostDetail 0 (handleSubmit 5 6 filledPage)))))) = [2]
   \<and> fst (openPostDetail 0 (snd (openPostDetail 0 (handleSubmit 5 6 filledPage)))) = Some 2"
proof -
  have a1: "currentEditIndex filledPage = None" and a3: "postImage filledPage = Some png1KB"
    and e: "posts filledPage = []" and at: "selectedImageAttribution filledPage = None"
    by (simp_all add: rest_filledPage)
  have a2: "checkRequired (inputs filledPage) requiredFields = None"
    by (simp add: inputs_filledPage requiredFields_def truthy_def trim_def isSpace_def)
  have a4: "ftype png1KB \<in> set allowedTypes" and a5: "fsize png1KB \<le> 5 * 1024 * 1024"
    and a6: "0 < fsize png1KB" and a7: "fdata png1KB = Some pngUrl"
    by (simp_all add: png1KB_def allowedTypes_def)
  have f: "author (createPostData (formDataOf filledPage) img 5) = ''A''
      \<and> category (createPostData (formDataOf filledPage) img 5) = ''food''
      \<and> title (createPostData (formDataOf filledPage) img 5) = ''T''
      \<and> excerpt (createPostData (formDataOf filledPage) img 5) = ''E''" for img
    by (simp add: createPostData_def formDataOf_def inputs_filledPage trimmed_def trim_def isSpace_def)
  show ?thesis
    using publish_then_view_twice [OF a1 a2 a3 a4 a5 a6 a7 refl refl refl refl, of 5 6] f e
    by (simp add: createPostData_def)
qed

section \<open>Loading a draft\<close>


lemma restoreField_None [simp]: "(restoreField d ins k') k = None \<longleftrightarrow> ins k = None"
  by (simp add: restoreField_def setValue_def split: option.splits)

lemma valueOf_restoreField:
  "valueOf (restoreField d ins k') k =
     (if k = k' \<and> ins k \<noteq> None \<and> truthy (draftGet d k) then draftGet d k else valueOf ins k)"
  by (auto simp: restoreField_def setValue_def valueOf_def split: option.splits)

lemma foldl_restoreField_None [simp]: "(foldl (restoreField d) ins ks) k = None \<longleftrightarrow> ins k = None"
  by (induction ks arbitrary: ins) simp_all

lemma valueOf_foldl_restoreField:
  "valueOf (foldl (restoreField d) ins ks) k =
     (if k \<in> set ks \<and> ins k \<noteq> None \<and> truthy (draftGet d k) then draftGet d k else valueOf ins k)"
proof (induction ks arbitrary: ins)
  case Nil
  show ?case by simp
next
  case (Cons k' ks)
  show ?case
    using Cons.IH [of "restoreField d ins k'"] by (auto simp: valueOf_restoreField)
qed

lemma loaded_state:
  "(case getItem s of None \<Rightarrow> s | Some saved \<Rightarrow> s\<lparr>formDraft := Some saved\<rparr>) = s\<lparr>formDraft := storedDraft s\<rparr>"
  by (simp add: storedDraft_def split: option.splits)

lemma loadFormDraft_expired:
  assumes "storedDraft s = Some d" and "now - savedAt d > sevenDays"
  shows "loadFormDraft now s = (False, clearFormDraft (s\<lparr>formDraft := Some d\<rparr>))"
  unfolding loadFormDraft_def loaded_state using assms by simp

lemma noDraft_clearFormDraft: "noDraft (clearFormDraft s)"
  by (simp add: noDraft_def clearFormDraft_def removeItem_def getItem_def)

lemma inputs_clearFormDraft [simp]: "inputs (clearFormDraft s) = inputs s"
  by (simp add: clearFormDraft_def removeItem_def)

lemma loadFormDraft_fresh:
  assumes "storedDraft s = Some d" and "now - savedAt d \<le> sevenDays"
  shows "fst (loadFormDraft now s)
       \<and> inputs (snd (loadFormDraft now s)) = foldl (restoreField d) (inputs s) draftKeys
       \<and> formDraft (snd (loadFormDraft now s)) = Some d"
  unfolding loadFormDraft_def loaded_state using assms
  by (simp add: Let_def showImagePreview_def split: option.splits)

lemma loadFormDraft_restores:
  assumes "storedDraft s = Some d" and "now - savedAt d \<le> sevenDays"
    and "\<forall>k \<in> set draftKeys. \<exists>i. inputs s k = Some i \<and> (ivalue i = [] \<or> truthy (draftGet d k))"
    and "k \<in> set draftKeys"
  shows "valueOf (inputs (snd (loadFormDraft now s))) k = draftGet d k"
proof -
  obtain i where i: "inputs s k = Some i" "ivalue i = [] \<or> truthy (draftGet d k)"
    using assms(3,4) by blast
  have "valueOf (foldl (restoreField d) (inputs s) draftKeys) k =
      (if truthy (draftGet d k) then draftGet d k else valueOf (inputs s) k)"
    using i(1) assms(4) by (simp add: valueOf_foldl_restoreField)
  moreover have "\<not> truthy (draftGet d k) \<Longrightarrow> valueOf (inputs s) k = draftGet d k"
    using i by (simp add: valueOf_def truthy_def)
  ultimately have "valueOf (foldl (restoreField d) (inputs s) draftKeys) k = draftGet d k"
    by simp
  then show ?thesis
    using loadFormDraft_fresh [OF assms(1,2)] by simp
qed

text \<open>
  Claim C4: a stored draft with time stamp \<open>savedAt d\<close> that is loaded more than seven
  days later is discarded: \<^verbatim>\<open>loadFormDraft\<close> returns false, the draft store is empty
  and the form is as it was. Loaded up to seven days later (six, for one) into the form
  as \<^verbatim>\<open>openCreateModal\<close> has reset it (each tracked control on the page, and blank
  unless the draft has a value for it), \<^verbatim>\<open>loadFormDraft\<close> returns true and every
  tracked control shows the value the draft holds for it.
\<close>

theorem loadFormDraft_by_age:
  assumes "storedDraft s = Some d"
  shows "(now - savedAt d > 7 * day \<longrightarrow>
            \<not> fst (loadFormDraft now s) \<and> noDraft (snd (loadFormDraft now s))
            \<and> inputs (snd (loadFormDraft now s)) = inputs s)
       \<and> (now - savedAt d \<le> 7 * day
            \<and> (\<forall>k \<in> set draftKeys. \<exists>i. inputs s k = Some i \<and> (ivalue i = [] \<or> truthy (draftGet d k)))
          \<longrightarrow> fst (loadFormDraft now s)
            \<and> (\<forall>k \<in> set draftKeys. valueOf (inputs (snd (loadFormDraft now s))) k = draftGet d k)
            \<and> formDraft (snd (loadFormDraft now s)) = Some d)"
proof -
  have seven: "sevenDays = 7 * day"
    by (simp add: sevenDays_def day_def)
  have old: "\<not> fst (loadFormDraft now s) \<and> noDraft (snd (loadFormDraft now s))
      \<and> inputs (snd (loadFormDraft now s)) = inputs s" if "now - savedAt d > 7 * day"
    using loadFormDraft_expired [OF assms, of now] that seven
    by (simp add: noDraft_clearFormDraft)
  have young: "fst (loadFormDraft now s)
      \<and> (\<forall>k \<in> set draftKeys. valueOf (inputs (snd (loadFormDraft now s))) k = draftGet d k)
      \<and> formDraft (snd (loadFormDraft now s)) = Some d"
    if age: "now - savedAt d \<le> 7 * day"
      and form: "\<forall>k \<in> set draftKeys. \<exists>i. inputs s k = Some i \<and> (ivalue i = [] \<or> truthy (draftGet d k))"
  proof -
    have a: "now - savedAt d \<le> sevenDays" using age seven by simp
    show ?thesis
      using loadFormDraft_fresh [OF assms a] loadFormDraft_restores [OF assms a form] by blast
  qed
  show ?thesis using old young by blast
qed

lemma storedDraft_frame:
  assumes "hasSessionStorage s' = hasSessionStorage s" and "blogFormDraft s' = blogFormDraft s"
    and "formDraft s' = formDraft s"
  shows "storedDraft s' = storedDraft s"
  using assms by (simp add: storedDraft_def getItem_def split: option.splits)

lemma storedDraft_resetForm [simp]: "storedDraft (resetForm s) = storedDraft s"
  by (rule storedDraft_frame) (simp_all add: resetForm_def)

lemma storedDraft_hideImagePreview [simp]: "storedDraft (hideImagePreview s) = storedDraft s"
  by (rule storedDraft_frame) (simp_all add: hideImagePreview_def)

text \<open>
  \<^verbatim>\<open>openCreateModal\<close> resets the form before it loads, so with the tracked controls on
  the page it shows exactly the values of a draft that has not expired.
\<close>

lemma openCreateModal_restores:
  assumes "storedDraft s = Some d" and "now - savedAt d \<le> 7 * day"
    and "\<forall>k \<in> set draftKeys. inputs s k \<noteq> None" and "k \<in> set draftKeys"
  shows "valueOf (inputs (openCreateModal now s)) k = draftGet d k"
proof -
  let ?s = "hideImagePreview (resetForm (s\<lparr>currentEditIndex := None\<rparr>))"
  have "storedDraft (s\<lparr>currentEditIndex := None\<rparr>) = storedDraft s"
    by (rule storedDraft_frame) simp_all
  then have "storedDraft (s\<lparr>currentEditIndex := None\<rparr>) = Some d"
    using assms(1) by simp
  then have st: "storedDraft ?s = Some d"
    by simp
  have a: "now - savedAt d \<le> sevenDays"
    using assms(2) by (simp add: sevenDays_def day_def)
  have "\<forall>k \<in> set draftKeys. \<exists>i. inputs ?s k = Some i \<and> (ivalue i = [] \<or> truthy (draftGet d k))"
    using assms(3) by (auto simp: hideImagePreview_def resetForm_def)
  then show ?thesis
    using loadFormDraft_restores [OF st a _ assms(4)] by (simp add: openCreateModal_def)
qed


lemma typedTwo_fields:
  "currentEditIndex typedTwo = None \<and> formDraft typedTwo = None \<and> previewImg typedTwo = Some []
   \<and> selectedImageAttribution typedTwo = None \<and> hasSessionStorage typedTwo"
  by (simp add: typedTwo_def freshPage_def constructor_def)

lemma inputs_typedTwo:
  "inputs typedTwo =
     pageInputs(''authorName'' \<mapsto> \<lparr>ivalue = ''A'', ilabel = Some ''Author Name''\<rparr>,
                ''postTitle'' \<mapsto> \<lparr>ivalue = ''T'', ilabel = Some ''Post Title''\<rparr>)"
  by (simp add: typedTwo_def freshPage_def constructor_def setValue_def pageInputs_def blankInput_def)

lemma unsaved_typedTwo: "hasUnsavedChanges typedTwo = ''A''"
  by (simp add: hasUnsavedChanges_def inputs_typedTwo valueOf_def or_else_def truthy_def
      trim_def isSpace_def)

lemma saveFormDraft_first:
  assumes "currentEditIndex s = None" and "truthy (hasUnsavedChanges s)" and "formDraft s = None"
  shows "saveFormDraft now s = storeDraft (withPreview s (candidate now s)) s"
  using assms by (simp add: saveFormDraft_def Let_def)

lemma storedDraft_storeDraft: "storedDraft (storeDraft d s) = Some d"
  by (simp add: storedDraft_def storeDraft_def setItem_def getItem_def)

lemma draftedPage_eq:
  "draftedPage = storeDraft
     \<lparr>authorName = ''A'', postCategory = [], postTitle = ''T'', postExcerpt = [], postTags = [],
      savedAt = 1000, draftAttribution = None, previewImageSrc = None\<rparr> typedTwo"
proof -
  have u: "truthy (hasUnsavedChanges typedTwo)"
    by (simp add: unsaved_typedTwo truthy_def)
  have "draftedPage = saveFormDraft 1000 typedTwo"
    by (simp add: draftedPage_def typedTwo_fields)
  then have d: "draftedPage = storeDraft (withPreview typedTwo (candidate 1000 typedTwo)) typedTwo"
    using saveFormDraft_first [of typedTwo 1000] u by (simp add: typedTwo_fields)
  have w: "withPreview typedTwo x = x" for x
    by (simp add: withPreview_def typedTwo_fields truthy_def)
  have c: "candidate 1000 typedTwo =
     \<lparr>authorName = ''A'', postCategory = [], postTitle = ''T'', postExcerpt = [], postTags = [],
           savedAt = 1000, draftAttribution = None, previewImageSrc = None\<rparr>"
    by (simp add: candidate_def typedTwo_fields inputs_typedTwo valueOf_def pageInputs_def blankInput_def)
  show ?thesis
    by (simp only: d w c)
qed

theorem loadFormDraft_by_age_witness:
  "\<not> fst (loadFormDraft (1000 + 8 * day) (resetForm draftedPage))
   \<and> noDraft (snd (loadFormDraft (1000 + 8 * day) (resetForm draftedPage)))
   \<and> fst (loadFormDraft (1000 + 6 * day) (resetForm draftedPage))
   \<and> map (valueOf (inputs (snd (loadFormDraft (1000 + 6 * day) (resetForm draftedPage))))) draftKeys
       = [''A'', [], ''T'', [], []]"
proof -
  let ?d = "\<lparr>authorName = ''A'', postCategory = [], postTitle = ''T'', postExcerpt = [], postTags = [],
           savedAt = 1000, draftAttribution = None, previewImageSrc = None\<rparr>"
  have st: "storedDraft (resetForm draftedPage) = Some ?d"
    by (simp add: draftedPage_eq storedDraft_storeDraft)
  have "inputs draftedPage = inputs typedTwo"
    by (simp add: draftedPage_eq storeDraft_def setItem_def)
  then have ins: "inputs (resetForm draftedPage) = pageInputs"
    by (intro ext) (simp add: resetForm_def inputs_typedTwo pageInputs_def blankInput_def)
  have form: "\<forall>k \<in> set draftKeys. \<exists>i. inputs (resetForm draftedPage) k = Some i
      \<and> (ivalue i = [] \<or> truthy (draftGet ?d k))"
    by (simp add: ins draftKeys_def pageInputs_def blankInput_def)
  have old: "1000 + 8 * day - savedAt ?d > 7 * day" and young: "1000 + 6 * day - savedAt ?d \<le> 7 * day"
    by (simp_all add: day_def)
  have "\<not> fst (loadFormDraft (1000 + 8 * day) (resetForm draftedPage))
      \<and> noDraft (snd (loadFormDraft (1000 + 8 * day) (resetForm draftedPage)))"
    using loadFormDraft_by_age [OF st, of "1000 + 8 * day"] old by blast
  moreover have "fst (loadFormDraft (1000 + 6 * day) (resetForm draftedPage))
      \<and> (\<forall>k \<in> set draftKeys.
            valueOf (inputs (snd (loadFormDraft (1000 + 6 * day) (resetForm draftedPage)))) k = draftGet ?d k)"
    using loadFormDraft_by_age [OF st, of "1000 + 6 * day"] young form by blast
  ultimately show ?thesis
    by (simp add: draftKeys_def draftGet_def)
qed


section \<open>Sorting is stable\<close>

lemma mset_insert_by [simp]: "mset (insert_by cmp x xs) = add_mset x (mset xs)"
  by (induction xs) simp_all

lemma set_insert_by [simp]: "set (insert_by cmp x xs) = insert x (set xs)"
  by (induction xs) auto

lemma consistent_flip:
  assumes "consistent cmp" and "\<not> cmp x y \<le> 0"
  shows "cmp y x \<le> 0"
proof -
  have "0 < cmp x y" using assms(2) by simp
  then have "cmp y x < 0" using assms(1) by (simp add: consistent_def)
  then show ?thesis by simp
qed

lemma consistent_trans:
  assumes "consistent cmp" and "cmp a b \<le> 0" and "cmp b c \<le> 0"
  shows "cmp a c \<le> 0"
  using assms unfolding consistent_def by blast

lemma sorted_insert_by:
  assumes "consistent cmp" and "sorted_wrt (\<lambda>a b. cmp a b \<le> 0) xs"
  shows "sorted_wrt (\<lambda>a b. cmp a b \<le> 0) (insert_by cmp x xs)"
  using assms(2)
proof (induction xs)
  case Nil
  show ?case by simp
next
  case (Cons y ys)
  show ?case
  proof (cases "cmp x y \<le> 0")
    case True
    have "cmp x z \<le> 0" if "z \<in> set ys" for z
      using consistent_trans [OF assms(1) True] Cons.prems that by simp
    then show ?thesis using True Cons.prems by simp
  next
    case False
    have "cmp y x \<le> 0" using assms(1) False by (rule consistent_flip)
    then show ?thesis using False Cons by simp
  qed
qed

lemma filter_insert_by_other:
  assumes "\<not> P x"
  shows "filter P (insert_by cmp x xs) = filter P xs"
  using assms by (induction xs) simp_all

lemma filter_insert_by_tie:
  assumes "consistent cmp" and "tie cmp t x"
  shows "filter (tie cmp t) (insert_by cmp x xs) = x # filter (tie cmp t) xs"
proof (induction xs)
  case Nil
  show ?case using assms(2) by simp
next
  case (Cons y ys)
  show ?case
  proof (cases "cmp x y \<le> 0")
    case True
    then show ?thesis using assms(2) by simp
  next
    case False
    have "\<not> tie cmp t y"
    proof
      assume "tie cmp t y"
      then have "cmp x t \<le> 0" and "cmp t y \<le> 0"
        using assms(2) by (simp_all add: tie_def)
      then have "cmp x y \<le> 0" by (rule consistent_trans [OF assms(1)])
      then show False using False by simp
    qed
    then show ?thesis using False Cons.IH by simp
  qed
qed

lemma array_sort_Cons: "array_sort cmp (x # xs) = insert_by cmp x (array_sort cmp xs)"
  by (simp add: array_sort_def)

lemma array_sort_stable_sorted:
  assumes "consistent cmp"
  shows "stable_sorted cmp xs (array_sort cmp xs)"
proof (induction xs)
  case Nil
  show ?case by (simp add: stable_sorted_def array_sort_def)
next
  case (Cons x xs)
  have s: "sorted_wrt (\<lambda>a b. cmp a b \<le> 0) (array_sort cmp (x # xs))"
    using Cons.IH sorted_insert_by [OF assms] by (simp add: stable_sorted_def array_sort_Cons)
  have m: "mset (array_sort cmp (x # xs)) = mset (x # xs)"
    using Cons.IH by (simp add: stable_sorted_def array_sort_Cons)
  have f: "filter (tie cmp t) (array_sort cmp (x # xs)) = filter (tie cmp t) (x # xs)" for t
  proof (cases "tie cmp t x")
    case True
    then show ?thesis
      using Cons.IH filter_insert_by_tie [OF assms True]
      by (simp add: stable_sorted_def array_sort_Cons)
  next
    case False
    then show ?thesis
      using Cons.IH by (simp add: stable_sorted_def array_sort_Cons filter_insert_by_other)
  qed
  show ?case using s m f by (simp add: stable_sorted_def)
qed


lemma consistent_by_date: "consistent (\<lambda>a b. dataDate a - dataDate b)"
  by (simp add: consistent_def)

lemma consistent_by_date_desc: "consistent (\<lambda>a b. dataDate b - dataDate a)"
  by (simp add: consistent_def)

lemma consistent_const: "consistent (\<lambda>a b. 0)"
  by (simp add: consistent_def)

lemma consistent_by_title:
  assumes "consistent localeCompare"
  shows "consistent (\<lambda>a b. localeCompare (h3 a) (h3 b))"
  using assms unfolding consistent_def by blast

lemma compareFn_cases:
  "compareFn lc ''newest'' = (\<lambda>a b. dataDate b - dataDate a)"
  "compareFn lc ''oldest'' = (\<lambda>a b. dataDate a - dataDate b)"
  "compareFn lc ''title'' = (\<lambda>a b. lc (h3 a) (h3 b))"
  by (intro ext, simp add: compareFn_def)+

lemma handleSort_snd:
  "fst (handleSort localeCompare sortValue (u, d)) = []
   \<and> snd (handleSort localeCompare sortValue (u, d)) = array_sort (compareFn localeCompare sortValue) (u @ d)"
  by (simp add: handleSort_def Let_def array_sort_def)

lemma codeCompare_flip: "(codeCompare a b < 0) = (0 < codeCompare b a)"
  by (induction a b rule: codeCompare.induct) auto


lemma codeCompare_Cons_le:
  "codeCompare (x # xs) (y # ys) \<le> 0 \<longleftrightarrow>
     (of_char x :: nat) < of_char y \<or> ((of_char x :: nat) = of_char y \<and> codeCompare xs ys \<le> 0)"
  by auto

lemma codeCompare_trans:
  "codeCompare a b \<le> 0 \<Longrightarrow> codeCompare b c \<le> 0 \<Longrightarrow> codeCompare a c \<le> 0"
proof (induction a b arbitrary: c rule: codeCompare.induct)
  case 1
  then show ?case by simp
next
  case (2 y ys)
  then show ?case by (cases c) simp_all
next
  case (3 x xs)
  then show ?case by simp
next
  case (4 x xs y ys)
  show ?case
  proof (cases c)
    case Nil
    then show ?thesis using "4.prems" by simp
  next
    case (Cons z zs)
    have xy: "(of_char x :: nat) < of_char y \<or> ((of_char x :: nat) = of_char y \<and> codeCompare xs ys \<le> 0)"
      using "4.prems"(1) by (simp only: codeCompare_Cons_le)
    have yz: "(of_char y :: nat) < of_char z \<or> ((of_char y :: nat) = of_char z \<and> codeCompare ys zs \<le> 0)"
      using "4.prems"(2) unfolding Cons by (simp only: codeCompare_Cons_le)
    have "(of_char x :: nat) < of_char z \<or> ((of_char x :: nat) = of_char z \<and> codeCompare xs zs \<le> 0)"
    proof (cases "(of_char x :: nat) = of_char y \<and> (of_char y :: nat) = of_char z")
      case True
      then have "codeCompare xs ys \<le> 0" and "codeCompare ys zs \<le> 0"
        using xy yz by simp_all
      then have "codeCompare xs zs \<le> 0"
        using "4.IH" True by simp
      then show ?thesis using True by simp
    next
      case False
      then show ?thesis using xy yz by auto
    qed
    then show ?thesis unfolding Cons by (simp only: codeCompare_Cons_le)
  qed
qed

lemma consistent_codeCompare: "consistent codeCompare"
  unfolding consistent_def using codeCompare_flip codeCompare_trans by blast


lemma tie_by_date: "tie (\<lambda>a b. dataDate a - dataDate b) \<lparr>h3 = [], dataDate = k\<rparr> = (\<lambda>e. dataDate e = k)"
  by (auto simp: tie_def fun_eq_iff)

lemma tie_by_title:
  "tie (\<lambda>a b. lc (h3 a) (h3 b)) \<lparr>h3 = t, dataDate = 0\<rparr> = (\<lambda>e. lc t (h3 e) = 0 \<and> lc (h3 e) t = 0)"
  by (auto simp: tie_def fun_eq_iff)

lemma sorted_oldest:
  "stable_sorted (compareFn lc ''oldest'') xs (array_sort (compareFn lc ''oldest'') xs)"
  unfolding compareFn_cases using consistent_by_date by (rule array_sort_stable_sorted)

lemma sorted_title:
  assumes "consistent lc"
  shows "stable_sorted (compareFn lc ''title'') xs (array_sort (compareFn lc ''title'') xs)"
  unfolding compareFn_cases using consistent_by_title [OF assms] by (rule array_sort_stable_sorted)

lemma array_sort_pair:
  "array_sort cmp [a, b] = (if cmp a b \<le> 0 then [a, b] else [b, a])"
  by (simp add: array_sort_def)

text \<open>
  Claim C9: for every list of articles, sorting by ``oldest'' puts them in ascending
  order of their time stamps and sorting by ``title'' in the order of
  \<^verbatim>\<open>localeCompare\<close> on their titles, for any consistent collation; in both cases the
  result is a rearrangement of the articles of the two containers, placed in the default
  container, in which articles that tie keep their original order. For the two articles
  \<open>B\<close> at \<open>t1\<close> and \<open>A\<close> at a later \<open>t2\<close>, with a collation that puts ``A'' before
  ``B'', ``oldest'' gives \<open>[B, A]\<close> and ``title'' gives \<open>[A, B]\<close>.
\<close>

theorem handleSort_oldest_and_title:
  assumes "consistent localeCompare"
    and "byDate = snd (handleSort localeCompare ''oldest'' (u, d))"
    and "byTitle = snd (handleSort localeCompare ''title'' (u, d))"
    and "b = \<lparr>h3 = ''B'', dataDate = t1\<rparr>" and "a = \<lparr>h3 = ''A'', dataDate = t2\<rparr>"
  shows "sorted_wrt (\<lambda>x y. dataDate x \<le> dataDate y) byDate \<and> mset byDate = mset (u @ d)
       \<and> (\<forall>k. filter (\<lambda>e. dataDate e = k) byDate = filter (\<lambda>e. dataDate e = k) (u @ d))
       \<and> sorted_wrt (\<lambda>x y. localeCompare (h3 x) (h3 y) \<le> 0) byTitle \<and> mset byTitle = mset (u @ d)
       \<and> (\<forall>t. filter (\<lambda>e. localeCompare t (h3 e) = 0 \<and> localeCompare (h3 e) t = 0) byTitle
              = filter (\<lambda>e. localeCompare t (h3 e) = 0 \<and> localeCompare (h3 e) t = 0) (u @ d))
       \<and> fst (handleSort localeCompare ''oldest'' (u, d)) = []
       \<and> fst (handleSort localeCompare ''title'' (u, d)) = []
       \<and> (t1 < t2 \<and> localeCompare ''A'' ''B'' < 0 \<longrightarrow>
            handleSort localeCompare ''oldest'' ([b, a], []) = ([], [b, a])
            \<and> handleSort localeCompare ''title'' ([b, a], []) = ([], [a, b]))"
proof -
  have o: "stable_sorted (\<lambda>a b. dataDate a - dataDate b) (u @ d) byDate"
    using sorted_oldest [of localeCompare "u @ d"]
    by (simp add: assms(2) handleSort_snd compareFn_cases)
  have o1: "sorted_wrt (\<lambda>x y. dataDate x \<le> dataDate y) byDate" and o2: "mset byDate = mset (u @ d)"
    using o by (simp_all add: stable_sorted_def)
  have o3: "filter (\<lambda>e. dataDate e = k) byDate = filter (\<lambda>e. dataDate e = k) (u @ d)" for k
  proof -
    have "filter (tie (\<lambda>a b. dataDate a - dataDate b) \<lparr>h3 = [], dataDate = k\<rparr>) byDate
        = filter (tie (\<lambda>a b. dataDate a - dataDate b) \<lparr>h3 = [], dataDate = k\<rparr>) (u @ d)"
      using o unfolding stable_sorted_def by blast
    then show ?thesis by (simp only: tie_by_date)
  qed
  have t: "stable_sorted (\<lambda>a b. localeCompare (h3 a) (h3 b)) (u @ d) byTitle"
    using sorted_title [OF assms(1), of "u @ d"]
    by (simp add: assms(3) handleSort_snd compareFn_cases)
  have t1': "sorted_wrt (\<lambda>x y. localeCompare (h3 x) (h3 y) \<le> 0) byTitle" and t2': "mset byTitle = mset (u @ d)"
    using t by (simp_all add: stable_sorted_def)
  have t3: "filter (\<lambda>e. localeCompare s (h3 e) = 0 \<and> localeCompare (h3 e) s = 0) byTitle
      = filter (\<lambda>e. localeCompare s (h3 e) = 0 \<and> localeCompare (h3 e) s = 0) (u @ d)" for s
  proof -
    have "filter (tie (\<lambda>a b. localeCompare (h3 a) (h3 b)) \<lparr>h3 = s, dataDate = 0\<rparr>) byTitle
        = filter (tie (\<lambda>a b. localeCompare (h3 a) (h3 b)) \<lparr>h3 = s, dataDate = 0\<rparr>) (u @ d)"
      using t unfolding stable_sorted_def by blast
    then show ?thesis by (simp only: tie_by_title)
  qed
  have e1: "handleSort localeCompare ''oldest'' ([b, a], []) = ([], [b, a])" if "t1 < t2"
    using that by (simp add: handleSort_def Let_def array_sort_pair compareFn_cases assms(4,5))
  have e2: "handleSort localeCompare ''title'' ([b, a], []) = ([], [a, b])" if "localeCompare ''A'' ''B'' < 0"
  proof -
    have "0 < localeCompare ''B'' ''A''"
      using assms(1) that by (simp add: consistent_def)
    then show ?thesis
      by (simp add: handleSort_def Let_def array_sort_pair compareFn_cases assms(4,5))
  qed
  show ?thesis
    using o1 o2 o3 t1' t2' t3 e1 e2 by (simp add: handleSort_snd)
qed

theorem handleSort_oldest_and_title_witness:
  "handleSort codeCompare ''oldest'' ([\<lparr>h3 = ''B'', dataDate = 1\<rparr>, \<lparr>h3 = ''A'', dataDate = 2\<rparr>], [])
     = ([], [\<lparr>h3 = ''B'', dataDate = 1\<rparr>, \<lparr>h3 = ''A'', dataDate = 2\<rparr>])
   \<and> handleSort codeCompare ''title'' ([\<lparr>h3 = ''B'', dataDate = 1\<rparr>, \<lparr>h3 = ''A'', dataDate = 2\<rparr>], [])
     = ([], [\<lparr>h3 = ''A'', dataDate = 2\<rparr>, \<lparr>h3 = ''B'', dataDate = 1\<rparr>])"
proof -
  have c: "(1::int) < 2 \<and> codeCompare ''A'' ''B'' < 0"
    by simp
  show ?thesis
    using handleSort_oldest_and_title
      [OF consistent_codeCompare refl refl refl refl, where ?t1.0 = 1 and ?t2.0 = 2 and u = "[]" and d = "[]"] c
    by blast
qed


section \<open>Updating a post\<close>


lemma createPostData_image: "(createPostData fd None now)\<lparr>image' := x\<rparr> = createPostData fd x now"
  by (simp add: createPostData_def)


lemma updatePost_posts:
  assumes "post_at (posts s) i = Some existingPost"
  shows "posts (updatePost i postData now' s) = (posts s)[nat i := merge existingPost postData now']"
  using assms by (simp add: updatePost_def)




lemma createPost_frame:
  "inputs (createPost pd s) = inputs s \<and> postImage (createPost pd s) = postImage s
   \<and> currentEditIndex (createPost pd s) = currentEditIndex s
   \<and> selectedImageAttribution (createPost pd s) = None \<and> formDraft (createPost pd s) = None
   \<and> hasSessionStorage (createPost pd s) = hasSessionStorage s"
  by (simp add: createPost_def clearFormDraft_def removeItem_def Let_def)

lemma openPostDetail_frame:
  "inputs (snd (openPostDetail i s)) = inputs s \<and> postImage (snd (openPostDetail i s)) = postImage s
   \<and> currentEditIndex (snd (openPostDetail i s)) = currentEditIndex s
   \<and> selectedImageAttribution (snd (openPostDetail i s)) = selectedImageAttribution s
   \<and> formDraft (snd (openPostDetail i s)) = formDraft s
   \<and> blogFormDraft (snd (openPostDetail i s)) = blogFormDraft s
   \<and> hasSessionStorage (snd (openPostDetail i s)) = hasSessionStorage s"
  by (simp add: openPostDetail_def split: option.splits)

lemma openEditModal_found:
  assumes "post_at (posts s) i = Some p"
  shows "posts (openEditModal i s) = posts s \<and> currentEditIndex (openEditModal i s) = Some i
       \<and> inputs (openEditModal i s) =
           setValue ''postTags'' (join '', '' (tags p))
             (setValue ''postExcerpt'' (excerpt p)
               (setValue ''postTitle'' (title p)
                 (setValue ''postCategory'' (category p)
                   (setValue ''authorName'' (author p) (inputs s)))))
       \<and> postImage (openEditModal i s) = (if retainedImage p = None then None else postImage s)
       \<and> noDraft (openEditModal i s)"
  using assms
  by (simp add: openEditModal_def Let_def clearFormDraft_def removeItem_def hideImagePreview_def
      showImagePreview_def retainedImage_def noDraft_def getItem_def split: option.splits)

lemma src_png1KB: "fdata png1KB = Some pngUrl \<and> ftype png1KB \<in> set allowedTypes
    \<and> fsize png1KB \<le> 5 * 1024 * 1024 \<and> 0 < fsize png1KB"
  by (simp add: png1KB_def allowedTypes_def)

lemma required_filledPage: "checkRequired (inputs filledPage) requiredFields = None"
  by (simp add: inputs_filledPage requiredFields_def truthy_def trim_def isSpace_def)

lemma createPostData_filledPage:
  "createPostData (formDataOf filledPage) img now =
     \<lparr>author = ''A'', category = ''food'', title = ''T'', image' = img, excerpt = ''E'', content = ''E'',
      tags = [], date = now, views = 0, dateEdited = None, imageAttribution = None\<rparr>"
  by (simp add: createPostData_def formDataOf_def inputs_filledPage pageInputs_def blankInput_def
      trimmed_def trim_def isSpace_def or_else_def truthy_def)


lemma creditedPage_fields:
  "posts creditedPage = [publishedPost] \<and> inputs creditedPage = inputs filledPage
   \<and> postImage creditedPage = Some png1KB"
proof -
  let ?s = "filledPage\<lparr>selectedImageAttribution := Some credit\<rparr>"
  have h: "handleSubmit 5 6 ?s =
      closeModals (createPost (createPostData (formDataOf ?s) (Some pngUrl) 5)
        (setFormError [] ?s))"
    using rest_filledPage required_filledPage src_png1KB
    by (intro handleSubmit_publishes [where f = png1KB]) simp_all
  have fd: "formDataOf ?s = formDataOf filledPage"
    by (simp add: formDataOf_def)
  have p: "posts (handleSubmit 5 6 ?s) = [publishedPost\<lparr>views := 0\<rparr>]"
    using rest_filledPage
    by (simp add: h fd closeModals_def createPost_posts setFormError_def createPostData_filledPage
        publishedPost_def)
  have i: "inputs (handleSubmit 5 6 ?s) = inputs filledPage \<and> postImage (handleSubmit 5 6 ?s) = Some png1KB"
    using rest_filledPage by (simp add: h closeModals_def createPost_frame setFormError_def)
  have v: "posts (snd (openPostDetail 0 t)) = [q\<lparr>views := views q + 1\<rparr>]" if "posts t = [q]" for t q
    using that by (simp add: openPostDetail_def post_at_def)
  have v1: "posts (snd (openPostDetail 0 (handleSubmit 5 6 ?s))) = [publishedPost\<lparr>views := 1\<rparr>]"
    using v [OF p] by simp
  have v2: "posts (snd (openPostDetail 0 (snd (openPostDetail 0 (handleSubmit 5 6 ?s))))) = [publishedPost]"
    using v [OF v1] by (simp add: publishedPost_def)
  show ?thesis
    using v2 i by (simp add: creditedPage_def openPostDetail_frame)
qed


section \<open>Drafts and the edit session\<close>

lemma draftOnlyInCreate_frame:
  assumes "currentEditIndex s' = currentEditIndex s" and "formDraft s' = formDraft s"
    and "blogFormDraft s' = blogFormDraft s" and "hasSessionStorage s' = hasSessionStorage s"
  shows "draftOnlyInCreate s' = draftOnlyInCreate s"
  using assms by (simp add: draftOnlyInCreate_def noDraft_def getItem_def)

lemma noDraft_frame:
  assumes "formDraft s' = formDraft s" and "blogFormDraft s' = blogFormDraft s"
    and "hasSessionStorage s' = hasSessionStorage s"
  shows "noDraft s' = noDraft s"
  using assms by (simp add: noDraft_def getItem_def)

lemma noDraft_closeModals [simp]: "noDraft (closeModals s) = noDraft s"
  by (rule noDraft_frame) (simp_all add: closeModals_def)

lemma noDraft_createPost [simp]: "noDraft (createPost pd s)"
  by (simp add: createPost_def Let_def noDraft_clearFormDraft)

lemma noDraft_clearFormAndDraft: "noDraft (clearFormAndDraft True s)"
proof -
  have "noDraft ((clearFormDraft t)\<lparr>selectedImageAttribution := None\<rparr>) = noDraft (clearFormDraft t)" for t
    by (rule noDraft_frame) simp_all
  then show ?thesis
    by (simp add: clearFormAndDraft_def noDraft_clearFormDraft)
qed

lemma draftOnlyInCreate_constructor: "draftOnlyInCreate (constructor ins err img st stored)"
  by (simp add: draftOnlyInCreate_def constructor_def)

lemma validateForm_frame:
  "posts (snd (validateForm s)) = posts s \<and> formDraft (snd (validateForm s)) = formDraft s
   \<and> blogFormDraft (snd (validateForm s)) = blogFormDraft s
   \<and> currentEditIndex (snd (validateForm s)) = currentEditIndex s
   \<and> hasSessionStorage (snd (validateForm s)) = hasSessionStorage s"
  by (simp add: validateForm_def validateImageFile_def setFormError_def Let_def
      split: option.splits)

lemma updatePost_frame:
  "formDraft (updatePost i pd t s) = formDraft s \<and> blogFormDraft (updatePost i pd t s) = blogFormDraft s
   \<and> currentEditIndex (updatePost i pd t s) = currentEditIndex s
   \<and> hasSessionStorage (updatePost i pd t s) = hasSessionStorage s
   \<and> inputs (updatePost i pd t s) = inputs s"
  by (simp add: updatePost_def split: option.splits)

lemma submitWithoutImage_session:
  "currentEditIndex (submitWithoutImage now now' s) = None
   \<and> (currentEditIndex s = None \<longrightarrow>
        formDraft (submitWithoutImage now now' s) = formDraft s
        \<and> blogFormDraft (submitWithoutImage now now' s) = blogFormDraft s
        \<and> hasSessionStorage (submitWithoutImage now now' s) = hasSessionStorage s)"
  by (simp add: submitWithoutImage_def closeModals_def setFormError_def Let_def split: option.splits)

lemma handleSubmit_session:
  "draftOnlyInCreate s \<Longrightarrow> draftOnlyInCreate (handleSubmit now now' s)"
proof -
  assume inv: "draftOnlyInCreate s"
  obtain ok s1 where v: "validateForm s = (ok, s1)"
    by (cases "validateForm s") auto
  have f: "formDraft s1 = formDraft s \<and> blogFormDraft s1 = blogFormDraft s
      \<and> currentEditIndex s1 = currentEditIndex s \<and> hasSessionStorage s1 = hasSessionStorage s"
    using validateForm_frame [of s] v by simp
  then have inv1: "draftOnlyInCreate s1"
    using inv draftOnlyInCreate_frame [of s1 s] by simp
  have e: "draftOnlyInCreate (setFormError m s1)" for m
    using inv1 draftOnlyInCreate_frame [of "setFormError m s1" s1] by (simp add: setFormError_def)
  have c: "draftOnlyInCreate (closeModals t)" for t
    by (simp add: draftOnlyInCreate_def closeModals_def)
  have w: "draftOnlyInCreate (submitWithoutImage now now' s1)"
    using submitWithoutImage_session [of now now' s1] by (simp add: draftOnlyInCreate_def)
  show ?thesis
  proof (cases ok)
    case False
    then show ?thesis using v inv1 by (simp add: handleSubmit_def)
  next
    case True
    then show ?thesis
      using v e c w by (simp add: handleSubmit_def Let_def split: option.splits)
  qed
qed

lemma loadFormDraft_index:
  "currentEditIndex (snd (loadFormDraft now s)) = currentEditIndex s"
  by (simp add: loadFormDraft_def Let_def clearFormDraft_def removeItem_def showImagePreview_def
      split: option.splits)

lemma openCreateModal_index: "currentEditIndex (openCreateModal now s) = None"
  by (simp add: openCreateModal_def loadFormDraft_index hideImagePreview_def resetForm_def)

lemma handleImageUpload_frame:
  "currentEditIndex (handleImageUpload f s) = currentEditIndex s
   \<and> formDraft (handleImageUpload f s) = formDraft s
   \<and> blogFormDraft (handleImageUpload f s) = blogFormDraft s
   \<and> hasSessionStorage (handleImageUpload f s) = hasSessionStorage s
   \<and> posts (handleImageUpload f s) = posts s"
  by (simp add: handleImageUpload_def validateImageFile_def setFormError_def showImagePreview_def
      split: option.splits)

lemma deletePost_frame:
  "currentEditIndex (deletePost i c s) = currentEditIndex s \<and> formDraft (deletePost i c s) = formDraft s
   \<and> blogFormDraft (deletePost i c s) = blogFormDraft s
   \<and> hasSessionStorage (deletePost i c s) = hasSessionStorage s"
  by (simp add: deletePost_def split: option.splits)

lemma step_keeps_draftOnlyInCreate:
  assumes "draftOnlyInCreate s" and "editsAimed s [e]"
  shows "draftOnlyInCreate (step e s)"
proof (cases e)
  case (OnInput k v)
  then show ?thesis
    using assms(1) draftOnlyInCreate_frame [of "step e s" s] by simp
next
  case (OnChooseFile f)
  then show ?thesis
    using assms(1) draftOnlyInCreate_frame [of "step e s" s] by (simp add: handleImageUpload_frame)
next
  case (OnAutosave now)
  then show ?thesis
    using assms(1) by (simp add: draftOnlyInCreate_def saveFormDraft_frame)
next
  case (OnOpenCreate now)
  then show ?thesis
    by (simp add: draftOnlyInCreate_def openCreateModal_index)
next
  case (OnOpenEdit index)
  then obtain p where "post_at (posts s) index = Some p"
    using assms(2) by auto
  then show ?thesis
    using OnOpenEdit openEditModal_found [of s index p] by (simp add: draftOnlyInCreate_def)
next
  case OnClose
  then show ?thesis
    by (simp add: draftOnlyInCreate_def closeModals_def)
next
  case (OnSubmit now now')
  then show ?thesis
    using assms(1) by (simp add: handleSubmit_session)
next
  case (OnDelete index confirmed)
  then show ?thesis
    using assms(1) draftOnlyInCreate_frame [of "step e s" s] by (simp add: deletePost_frame)
next
  case (OnOpenDetail postId)
  then show ?thesis
    using assms(1) draftOnlyInCreate_frame [of "step e s" s] by (simp add: openPostDetail_frame)
next
  case OnRemoveImage
  then show ?thesis
    using assms(1) draftOnlyInCreate_frame [of "step e s" s]
    by (simp add: removeImage_def hideImagePreview_def)
next
  case (OnClear confirmed)
  show ?thesis
  proof (cases confirmed)
    case True
    then show ?thesis
      using OnClear noDraft_clearFormAndDraft [of s] by (simp add: draftOnlyInCreate_def)
  next
    case False
    then show ?thesis
      using OnClear assms(1) by (simp add: clearFormAndDraft_def)
  qed
qed

lemma editsAimed_Cons: "editsAimed s (e # es) = (editsAimed s [e] \<and> editsAimed (step e s) es)"
  by (cases e) simp_all

text \<open>
  In every run in which \<^verbatim>\<open>openEditModal\<close> is only called with the index of a stored
  post, a draft is held only in create mode.
\<close>

lemma run_keeps_draftOnlyInCreate:
  assumes "draftOnlyInCreate s" and "editsAimed s es"
  shows "draftOnlyInCreate (run s es)"
  using assms
proof (induction es arbitrary: s)
  case Nil
  then show ?case by simp
next
  case (Cons e es)
  have "editsAimed s [e]" and "editsAimed (step e s) es"
    using Cons.prems(2) editsAimed_Cons [of s e es] by simp_all
  then show ?case
    using Cons.IH [of "step e s"] step_keeps_draftOnlyInCreate [OF Cons.prems(1)] by simp
qed

text \<open>The three mechanisms that keep it so.\<close>

lemma autosave_in_edit_mode:
  assumes "currentEditIndex s \<noteq> None"
  shows "step (OnAutosave now) s = s \<and> saveFormDraft now s = s \<and> saveFormDraft_always now s = s"
  using assms by (cases "currentEditIndex s") (simp_all add: saveFormDraft_def saveFormDraft_always_def)

lemma openEditModal_clears_draft:
  assumes "post_at (posts s) i \<noteq> None"
  shows "currentEditIndex (openEditModal i s) = Some i \<and> noDraft (openEditModal i s)"
  using assms openEditModal_found [of s i] by auto

lemma publish_clears_draft:
  assumes "currentEditIndex s = None"
    and "checkRequired (inputs s) requiredFields = None"
    and "postImage s = Some f" and "ftype f \<in> set allowedTypes" and "fsize f \<le> 5 * 1024 * 1024"
    and "0 < fsize f" and "fdata f = Some src"
  shows "noDraft (handleSubmit now now' s)"
  using handleSubmit_publishes [OF assms, of now now'] by simp


lemma draftedPage_fields:
  "posts draftedPage = [] \<and> currentEditIndex draftedPage = None \<and> hasSessionStorage draftedPage
   \<and> map_option savedAt (formDraft draftedPage) = Some 1000"
  by (simp add: draftedPage_eq storeDraft_def setItem_def typedTwo_fields)
    (simp add: typedTwo_def freshPage_def constructor_def)

text \<open>
  Claim C2 says that over every run of operations a draft is held only while the session
  is in create mode. An autosave fire in edit mode does write nothing,
  \<^verbatim>\<open>openEditModal\<close> with the index of a stored post does clear the draft, a publish
  does clear it, and over runs in which \<^verbatim>\<open>openEditModal\<close> only gets such indices the
  statement holds (the four lemmas above). But \<^verbatim>\<open>openEditModal\<close> with an index the
  store does not have sets \<^verbatim>\<open>currentEditIndex\<close> and returns before it clears
  anything: after a draft was saved at time 1000 and the editor closed, such a call
  leaves the session in edit mode at index 0 with that draft still in the store.
\<close>

theorem stray_edit_keeps_draft:
  "draftOnlyInCreate draftedPage
   \<and> currentEditIndex strayEdit = Some 0
   \<and> map_option savedAt (formDraft strayEdit) = Some 1000
   \<and> \<not> draftOnlyInCreate strayEdit"
proof -
  have "post_at (posts (closeModals draftedPage)) 0 = None"
    by (simp add: closeModals_def draftedPage_fields post_at_def)
  then have "openEditModal 0 (closeModals draftedPage) = (closeModals draftedPage)\<lparr>currentEditIndex := Some 0\<rparr>"
    by (simp add: openEditModal_def Let_def)
  then have e: "strayEdit = draftedPage\<lparr>currentEditIndex := Some 0\<rparr>"
    by (simp add: strayEdit_def closeModals_def)
  have d: "formDraft draftedPage \<noteq> None"
    using draftedPage_fields by auto
  show ?thesis
    using d by (simp add: e draftOnlyInCreate_def noDraft_def draftedPage_fields)
qed


section \<open>Views and edit stamps over runs of store operations\<close>

lemma faithful_later:
  assumes "faithful ps g p" and "views p \<le> views p'" and "dateEdited p' = dateEdited p"
  shows "faithful ps g p'"
proof (cases g)
  case (Pair start updated)
  then show ?thesis using assms by (cases start) auto
qed

lemma faithful_updated:
  assumes "faithful ps g p" and "views p \<le> views p'"
  shows "faithful ps (fst g, True) p'"
proof (cases g)
  case (Pair start updated)
  then show ?thesis using assms by (cases start) auto
qed

lemma faithful_origin: "list_all2 (faithful ps) (origin ps) ps"
  by (simp add: list_all2_conv_all_nth origin_def)

lemma post_at_Some:
  "post_at ps i = Some p \<longleftrightarrow> 0 \<le> i \<and> nat i < length ps \<and> p = ps ! nat i"
  by (auto simp: post_at_def)

lemma apply_op_faithful:
  assumes "list_all2 (faithful ps) h (posts s)"
  shows "list_all2 (faithful ps) (track x s h) (posts (apply_op x s))"
proof (cases x)
  case (Create formData img now)
  have "dateEdited (case selectedImageAttribution s of
                      None \<Rightarrow> createPostData formData img now
                    | Some a \<Rightarrow> (createPostData formData img now)\<lparr>imageAttribution := Some a\<rparr>) = None"
    by (simp add: createPostData_def split: option.splits)
  then show ?thesis
    using Create assms by (simp add: createPost_posts)
next
  case (Update index formData img now now')
  show ?thesis
  proof (cases "post_at (posts s) index")
    case None
    then show ?thesis using Update assms by (simp add: updatePost_def)
  next
    case (Some existingPost)
    then have i: "nat index < length (posts s)" and e: "existingPost = posts s ! nat index"
      by (simp_all add: post_at_Some)
    have "faithful ps (h ! nat index) existingPost"
      using assms i e by (simp add: list_all2_conv_all_nth)
    then have "faithful ps (fst (h ! nat index), True)
        (merge existingPost (createPostData formData img now) now')"
      by (rule faithful_updated) (simp add: merge_def)
    then show ?thesis
      using Update Some assms by (simp add: updatePost_def list_all2_update_cong)
  qed
next
  case (Delete index confirmed)
  show ?thesis
  proof (cases "post_at (posts s) index = None \<or> \<not> confirmed")
    case True
    then show ?thesis using Delete assms by (auto simp: deletePost_def split: option.splits)
  next
    case False
    then show ?thesis
      using Delete assms
      by (auto simp: deletePost_def intro!: list_all2_appendI list_all2_takeI list_all2_dropI)
  qed
next
  case (IncrementViews postId)
  show ?thesis
  proof (cases "post_at (posts s) postId")
    case None
    then show ?thesis using IncrementViews assms by (simp add: openPostDetail_def)
  next
    case (Some p)
    then have i: "nat postId < length (posts s)" and e: "p = posts s ! nat postId"
      by (simp_all add: post_at_Some)
    have "faithful ps (h ! nat postId) p"
      using assms i e by (simp add: list_all2_conv_all_nth)
    then have "faithful ps (h ! nat postId) (p\<lparr>views := views p + 1\<rparr>)"
      by (rule faithful_later) simp_all
    then have "list_all2 (faithful ps) (h[nat postId := h ! nat postId])
        ((posts s)[nat postId := p\<lparr>views := views p + 1\<rparr>])"
      using assms by (intro list_all2_update_cong)
    then show ?thesis
      using IncrementViews Some by (simp add: openPostDetail_def)
  qed
qed

lemma run_ops_faithful:
  assumes "list_all2 (faithful ps) h (posts s)"
  shows "list_all2 (faithful ps) (snd (run_ops xs (s, h))) (posts (fst (run_ops xs (s, h))))"
  using assms
proof (induction xs arbitrary: s h)
  case Nil
  then show ?case by simp
next
  case (Cons x xs)
  show ?case
    using Cons.IH [OF apply_op_faithful [OF Cons.prems]] by simp
qed

lemma fst_run_ops: "fst (run_ops xs (s, h)) = foldl (\<lambda>t x. apply_op x t) s xs"
  by (induction xs arbitrary: s h) simp_all


lemma handleSubmit_is_store_op:
  "posts (handleSubmit now now' s) = posts s
   \<or> (\<exists>img. posts (handleSubmit now now' s) = posts (apply_op (Create (formDataOf s) img now) s))
   \<or> (\<exists>i img. posts (handleSubmit now now' s) = posts (apply_op (Update i (formDataOf s) img now now') s))"
proof -
  obtain ok s1 where v: "validateForm s = (ok, s1)"
    by (cases "validateForm s") auto
  have p: "posts s1 = posts s" and a: "selectedImageAttribution s1 = selectedImageAttribution s"
    and fd: "formDataOf s1 = formDataOf s"
    using v
    by (auto simp: validateForm_def validateImageFile_def setFormError_def Let_def formDataOf_def
        split: option.splits if_splits)
  have c: "posts (createPost pd s1) = posts (createPost pd s)" for pd
    by (simp add: createPost_posts p a)
  have u: "posts (updatePost i pd now' s1) = posts (updatePost i pd now' s)" for i pd
    by (simp add: updatePost_def p split: option.splits)
  have w: "posts (submitWithoutImage now now' s1) = posts s
      \<or> (\<exists>i img. posts (submitWithoutImage now now' s1) = posts (updatePost i (createPostData (formDataOf s) img now) now' s))"
    by (auto simp: submitWithoutImage_def closeModals_def setFormError_def Let_def p u fd
        createPostData_image split: option.splits)
  show ?thesis
  proof (cases ok)
    case False
    then show ?thesis using v p by (simp add: handleSubmit_def)
  next
    case True
    then show ?thesis
      using v w
      by (auto simp: handleSubmit_def Let_def closeModals_def setFormError_def p c u fd
          split: option.splits)
  qed
qed

text \<open>
  Claim C6: over every sequence of create, update, delete and view operations, a post
  that is still in the store has at least the views it started with, and a
  \<open>dateEdited\<close> other than the one it started with only if an update reached it: a
  post that was in the store at the start (at position \<open>j\<close>, now at \<open>k\<close>) has
  \<open>views\<close> no smaller than then, and the same \<open>dateEdited\<close> unless updated; a post
  published during the run has no \<open>dateEdited\<close> unless updated. An update keeps the
  views of the post, and a newly published post has no \<open>dateEdited\<close>.
\<close>

theorem views_monotone_and_edit_stamp:
  assumes "run_ops xs (s, origin (posts s)) = (s', h)"
  shows "length h = length (posts s')
       \<and> (\<forall>k j updated. k < length (posts s') \<and> h ! k = (Some j, updated) \<longrightarrow>
             j < length (posts s) \<and> views (posts s ! j) \<le> views (posts s' ! k)
             \<and> (updated \<or> dateEdited (posts s' ! k) = dateEdited (posts s ! j)))
       \<and> (\<forall>k updated. k < length (posts s') \<and> h ! k = (None, updated) \<longrightarrow>
             updated \<or> dateEdited (posts s' ! k) = None)
       \<and> (\<forall>p. post_at (posts s) i = Some p \<longrightarrow>
             map_option views (post_at (posts (apply_op (Update i fd img now now') s)) i) = Some (views p))
       \<and> map dateEdited (take 1 (posts (apply_op (Create fd img now) s))) = [None]"
proof -
  have "list_all2 (faithful (posts s)) (snd (run_ops xs (s, origin (posts s))))
      (posts (fst (run_ops xs (s, origin (posts s)))))"
    using faithful_origin by (rule run_ops_faithful)
  then have all: "list_all2 (faithful (posts s)) h (posts s')"
    by (simp add: assms)
  then have len: "length h = length (posts s')"
    by (rule list_all2_lengthD)
  have nth: "faithful (posts s) (h ! k) (posts s' ! k)" if "k < length (posts s')" for k
    using all that by (simp add: list_all2_conv_all_nth)
  have old: "j < length (posts s) \<and> views (posts s ! j) \<le> views (posts s' ! k)
      \<and> (updated \<or> dateEdited (posts s' ! k) = dateEdited (posts s ! j))"
    if "k < length (posts s')" "h ! k = (Some j, updated)" for k j updated
    using nth [OF that(1)] that(2) by simp
  have new: "updated \<or> dateEdited (posts s' ! k) = None"
    if "k < length (posts s')" "h ! k = (None, updated)" for k updated
    using nth [OF that(1)] that(2) by simp
  have upd: "map_option views (post_at (posts (apply_op (Update i fd img now now') s)) i) = Some (views p)"
    if "post_at (posts s) i = Some p" for p
  proof -
    have "0 \<le> i \<and> nat i < length (posts s)"
      using that by (simp add: post_at_Some)
    then show ?thesis
      by (simp add: updatePost_posts [OF that] post_at_def merge_def)
  qed
  have cre: "map dateEdited (take 1 (posts (apply_op (Create fd img now) s))) = [None]"
    by (simp add: createPost_posts createPostData_def split: option.splits)
  have old': "\<forall>k j updated. k < length (posts s') \<and> h ! k = (Some j, updated) \<longrightarrow>
      j < length (posts s) \<and> views (posts s ! j) \<le> views (posts s' ! k)
      \<and> (updated \<or> dateEdited (posts s' ! k) = dateEdited (posts s ! j))"
  proof (intro allI impI)
    fix k j updated
    assume "k < length (posts s') \<and> h ! k = (Some j, updated)"
    then show "j < length (posts s) \<and> views (posts s ! j) \<le> views (posts s' ! k)
      \<and> (updated \<or> dateEdited (posts s' ! k) = dateEdited (posts s ! j))"
      using old [of k j updated] by simp
  qed
  have new': "\<forall>k updated. k < length (posts s') \<and> h ! k = (None, updated) \<longrightarrow>
      updated \<or> dateEdited (posts s' ! k) = None"
  proof (intro allI impI)
    fix k updated
    assume "k < length (posts s') \<and> h ! k = (None, updated)"
    then show "updated \<or> dateEdited (posts s' ! k) = None"
      using new [of k updated] by simp
  qed
  have upd': "\<forall>p. post_at (posts s) i = Some p \<longrightarrow>
      map_option views (post_at (posts (apply_op (Update i fd img now now') s)) i) = Some (views p)"
    using upd by simp
  show ?thesis
    by (intro conjI) (fact len old' new' upd' cre)+
qed


lemma createPostData_formA:
  "createPostData formA img now =
     \<lparr>author = ''A'', category = ''food'', title = ''T'', image' = img, excerpt = ''E'', content = ''E'',
      tags = [''x'', ''y''], date = now, views = 0, dateEdited = None, imageAttribution = None\<rparr>"
  by (simp add: createPostData_def formA_def trimmed_def trim_def isSpace_def or_else_def truthy_def)

lemma attribution_creditedPage: "selectedImageAttribution creditedPage = None"
proof -
  let ?s = "filledPage\<lparr>selectedImageAttribution := Some credit\<rparr>"
  have "handleSubmit 5 6 ?s =
      closeModals (createPost (createPostData (formDataOf ?s) (Some pngUrl) 5) (setFormError [] ?s))"
    using rest_filledPage required_filledPage src_png1KB
    by (intro handleSubmit_publishes [where f = png1KB]) simp_all
  then have "selectedImageAttribution (handleSubmit 5 6 ?s) = None"
    by (simp add: closeModals_def createPost_frame)
  then show ?thesis
    by (simp add: creditedPage_def openPostDetail_frame)
qed

lemma exampleOps_result:
  "map (\<lambda>p. (date p, views p, dateEdited p))
       (posts (fst (run_ops exampleOps (creditedPage, origin (posts creditedPage))))) = [(7, 3, Some 8)]
   \<and> snd (run_ops exampleOps (creditedPage, origin (posts creditedPage))) = [(Some 0, True)]"
proof -
  have s0: "posts creditedPage = [publishedPost]"
    by (simp add: creditedPage_fields)
  let ?s1 = "apply_op (Create formA (Some pngUrl) 6) creditedPage"
  have p1: "posts ?s1 = [createPostData formA (Some pngUrl) 6, publishedPost]"
    by (simp add: createPost_posts attribution_creditedPage s0)
  let ?s2 = "apply_op (IncrementViews 1) ?s1"
  have p2: "posts ?s2 = [createPostData formA (Some pngUrl) 6, publishedPost\<lparr>views := 3\<rparr>]"
    using p1 by (simp add: openPostDetail_def post_at_def publishedPost_def)
  let ?s3 = "apply_op (Update 1 formA None 7 8) ?s2"
  have p3: "posts ?s3 = [createPostData formA (Some pngUrl) 6,
      (createPostData formA None 7)\<lparr>views := 3, dateEdited := Some 8, imageAttribution := Some credit\<rparr>]"
    using p2 by (simp add: updatePost_def post_at_def merge_def createPostData_formA publishedPost_def)
  let ?s4 = "apply_op (Delete 0 True) ?s3"
  have p4: "posts ?s4 =
      [(createPostData formA None 7)\<lparr>views := 3, dateEdited := Some 8, imageAttribution := Some credit\<rparr>]"
    using p3 by (simp add: deletePost_def post_at_def)
  have r: "run_ops exampleOps (creditedPage, origin (posts creditedPage)) =
      (?s4, track (Delete 0 True) ?s3 (track (Update 1 formA None 7 8) ?s2
              (track (IncrementViews 1) ?s1 (track (Create formA (Some pngUrl) 6) creditedPage [(Some 0, False)]))))"
    using s0 by (simp add: exampleOps_def origin_def del: apply_op.simps track.simps)
  have h: "track (Delete 0 True) ?s3 (track (Update 1 formA None 7 8) ?s2
              (track (IncrementViews 1) ?s1 (track (Create formA (Some pngUrl) 6) creditedPage [(Some 0, False)])))
           = [(Some 0, True)]"
    using p2 p3 by (simp add: post_at_def del: apply_op.simps)
  show ?thesis
    unfolding r using p4 h by (simp add: createPostData_formA del: apply_op.simps track.simps)
qed

theorem views_monotone_and_edit_stamp_witness:
  "map (\<lambda>p. (date p, views p, dateEdited p)) (posts creditedPage) = [(5, 2, None)]
   \<and> map (\<lambda>p. (date p, views p, dateEdited p))
       (posts (fst (run_ops exampleOps (creditedPage, origin (posts creditedPage))))) = [(7, 3, Some 8)]
   \<and> snd (run_ops exampleOps (creditedPage, origin (posts creditedPage))) = [(Some 0, True)]
   \<and> views (posts creditedPage ! 0)
       \<le> views (posts (fst (run_ops exampleOps (creditedPage, origin (posts creditedPage)))) ! 0)"
proof -
  let ?r = "run_ops exampleOps (creditedPage, origin (posts creditedPage))"
  have e: "map (\<lambda>p. (date p, views p, dateEdited p)) (posts (fst ?r)) = [(7, 3, Some 8)]"
    and h: "snd ?r = [(Some 0, True)]"
    using exampleOps_result by simp_all
  have k: "0 < length (posts (fst ?r)) \<and> snd ?r ! 0 = (Some 0, True)"
    using e h by auto
  have "views (posts creditedPage ! 0) \<le> views (posts (fst ?r) ! 0)"
    using views_monotone_and_edit_stamp [OF prod.collapse [symmetric], of exampleOps creditedPage] k
    by blast
  then show ?thesis
    using e h by (simp add: creditedPage_fields publishedPost_def)
qed


section \<open>What an update keeps\<close>



lemma plain_setFormError [simp]: "plain (setFormError m s) = plain s"
  by (simp add: plain_def setFormError_def)

lemma plain_closeModals [simp]: "plain (closeModals s) = plain s"
  by (simp add: plain_def closeModals_def)






























end
